theory Spec2Isabelle
  imports Complex_Main
begin

section \<open>JavaScript values\<close>

text \<open>
  A JavaScript string is modelled by the bytes of its UTF-8 encoding (\<open>string\<close>), so that
  ASCII text reads as it does in the source. A number is an IEEE double: not-a-number, an
  infinity, or a finite value kept as the exact rational it denotes (the two zeros are
  identified; nothing below can tell them apart).
\<close>

datatype js_number = NaN | PosInfinity | NegInfinity | Finite rat

text \<open>
  The values \<open>JSON.parse\<close> and \<open>response.json()\<close> can produce. An object keeps its
  properties in enumeration order. \<open>undefined\<close> is not a JSON value: an expression that may
  be \<open>undefined\<close> has type \<open>json option\<close> with \<open>None\<close> for it.
\<close>

datatype json =
    JNull
  | JBool bool
  | JNum js_number
  | JStr string
  | JArr "json list"
  | JObj "(string \<times> json) list"

datatype js_error =
    Error string
  | TypeError
  | SyntaxError
  | URIError

text \<open>\<open>ToBoolean\<close>, as used by \<open>||\<close>, \<open>!\<close> and the conditional operator.\<close>

fun truthy :: "json option \<Rightarrow> bool" where
  "truthy None = False"
| "truthy (Some JNull) = False"
| "truthy (Some (JBool b)) = b"
| "truthy (Some (JNum n)) = (n \<noteq> NaN \<and> n \<noteq> Finite 0)"
| "truthy (Some (JStr s)) = (s \<noteq> [])"
| "truthy (Some (JArr xs)) = True"
| "truthy (Some (JObj m)) = True"

text \<open>\<open>a || b\<close>\<close>

definition js_or :: "json option \<Rightarrow> json option \<Rightarrow> json option" where
  "js_or a b = (if truthy a then a else b)"

text \<open>
  \<open>v.name\<close> for a property name that no built-in prototype defines and that is neither
  \<open>length\<close> nor an index (\<open>quotes\<close>, \<open>quoteType\<close>, \<open>symbol\<close>, \<open>longname\<close>,
  \<open>shortname\<close>): reading it from \<open>null\<close> throws, an object gives its own property, every
  other value gives \<open>undefined\<close>.
\<close>

fun get_prop :: "json \<Rightarrow> string \<Rightarrow> js_error + json option" where
  "get_prop JNull name = Inl TypeError"
| "get_prop (JObj m) name = Inr (map_of m name)"
| "get_prop v name = Inr None"


text \<open>
  \<open>v[key]\<close> for a computed key that is no built-in property name (every built-in name,
  \<open>length\<close> included, holds a lower-case ASCII letter; the only caller passes an
  upper-cased key). An array and a string answer to a canonical index.
\<close>

definition is_digit :: "char \<Rightarrow> bool" where
  "is_digit c = (c \<in> set ''0123456789'')"

definition digit_val :: "char \<Rightarrow> nat" where
  "digit_val c = of_char c - 48"

definition nat_of_digits :: "string \<Rightarrow> nat" where
  "nat_of_digits ds = foldl (\<lambda>n c. 10 * n + digit_val c) 0 ds"

text \<open>An array index: decimal digits without a leading zero, below \<open>2 ^ 32 - 1\<close>.\<close>

definition array_index :: "string \<Rightarrow> nat option" where
  "array_index k =
     (if k \<noteq> [] \<and> list_all is_digit k \<and> (k = ''0'' \<or> hd k \<noteq> CHR ''0'') \<and>
         nat_of_digits k < 4294967295
      then Some (nat_of_digits k) else None)"

text \<open>
  The UTF-16 code units of a string, each as a string of its own: a character of up to
  three bytes is one unit, a four-byte character is a pair of surrogates.
\<close>

definition utf8_3 :: "nat \<Rightarrow> string" where
  "utf8_3 u = [char_of (224 + u div 4096), char_of (128 + (u div 64) mod 64), char_of (128 + u mod 64)]"

definition surrogates :: "string \<Rightarrow> string list" where
  "surrogates bs =
     (let cp = foldl (\<lambda>n b. 64 * n + (of_char b :: nat) mod 64) ((of_char (hd bs) :: nat) mod 8) (tl bs);
          v = cp - 65536
      in [utf8_3 (55296 + v div 1024), utf8_3 (56320 + v mod 1024)])"

fun code_units :: "string \<Rightarrow> string list" where
  "code_units [] = []"
| "code_units (b # bs) =
     (let n = of_char b :: nat in
      if n < 192 then [b] # code_units bs
      else if n < 224 then (b # take 1 bs) # code_units (drop 1 bs)
      else if n < 240 then (b # take 2 bs) # code_units (drop 2 bs)
      else surrogates (b # take 3 bs) @ code_units (drop 3 bs))"

fun get_elem :: "json \<Rightarrow> string \<Rightarrow> js_error + json option" where
  "get_elem JNull key = Inl TypeError"
| "get_elem (JObj m) key = Inr (map_of m key)"
| "get_elem (JArr xs) key =
     Inr (case array_index key of
            None \<Rightarrow> None
          | Some i \<Rightarrow> if i < length xs then Some (xs ! i) else None)"
| "get_elem (JStr s) key =
     Inr (case array_index key of
            None \<Rightarrow> None
          | Some i \<Rightarrow> if i < length (code_units s) then Some (JStr (code_units s ! i)) else None)"
| "get_elem v key = Inr None"

text \<open>\<open>Array.prototype.filter\<close> and \<open>map\<close> with a callback that may throw.\<close>

fun js_filter :: "('a \<Rightarrow> js_error + bool) \<Rightarrow> 'a list \<Rightarrow> js_error + 'a list" where
  "js_filter p [] = Inr []"
| "js_filter p (x # xs) =
     (case p x of
        Inl e \<Rightarrow> Inl e
      | Inr b \<Rightarrow> (case js_filter p xs of
                   Inl e \<Rightarrow> Inl e
                 | Inr ys \<Rightarrow> Inr (if b then x # ys else ys)))"

fun js_map :: "('a \<Rightarrow> js_error + 'b) \<Rightarrow> 'a list \<Rightarrow> js_error + 'b list" where
  "js_map f [] = Inr []"
| "js_map f (x # xs) =
     (case f x of
        Inl e \<Rightarrow> Inl e
      | Inr y \<Rightarrow> (case js_map f xs of
                   Inl e \<Rightarrow> Inl e
                 | Inr ys \<Rightarrow> Inr (y # ys)))"

section \<open>Strings\<close>

definition digit_char :: "nat \<Rightarrow> char" where
  "digit_char d = (''0123456789'') ! d"

text \<open>The decimal digits of a natural number.\<close>

fun digits_of :: "nat \<Rightarrow> string" where
  "digits_of n = (if n < 10 then [digit_char n] else digits_of (n div 10) @ [digit_char (n mod 10)])"

declare digits_of.simps [simp del]

definition hex_char :: "nat \<Rightarrow> char" where
  "hex_char d = (''0123456789ABCDEF'') ! d"

text \<open>
  The characters of a string, each as the bytes of its UTF-8 encoding: the first byte
  tells the length. \<open>code_point\<close> reads the code point of one character and \<open>utf8\<close>
  writes it.
\<close>

fun characters :: "string \<Rightarrow> string list" where
  "characters [] = []"
| "characters (b # bs) =
     (let n = of_char b :: nat in
      if n < 192 then [b] # characters bs
      else if n < 224 then (b # take 1 bs) # characters (drop 1 bs)
      else if n < 240 then (b # take 2 bs) # characters (drop 2 bs)
      else (b # take 3 bs) # characters (drop 3 bs))"

definition code_point :: "string \<Rightarrow> nat" where
  "code_point c =
     foldl (\<lambda>n b. 64 * n + (of_char b :: nat) mod 64)
       ((of_char (hd c) :: nat) mod (if length c = 1 then 128 else if length c = 2 then 32
                                     else if length c = 3 then 16 else 8))
       (tl c)"

definition utf8 :: "nat \<Rightarrow> string" where
  "utf8 cp =
     (if cp < 128 then [char_of cp]
      else if cp < 2048 then [char_of (192 + cp div 64), char_of (128 + cp mod 64)]
      else if cp < 65536 then utf8_3 cp
      else [char_of (240 + cp div 262144), char_of (128 + (cp div 4096) mod 64),
            char_of (128 + (cp div 64) mod 64), char_of (128 + cp mod 64)])"

text \<open>
  \<open>String.prototype.toUpperCase\<close> replaces every code point of the string by its upper
  case in the Unicode Character Database (version 15.0), whatever the locale: the
  unconditional mapping of \<open>SpecialCasing.txt\<close> when the code point has one, which may be
  several code points (U+00DF, the sharp s, becomes \<open>SS\<close>), else the simple upper-case
  mapping of \<open>UnicodeData.txt\<close>, else the code point itself.

  \<open>simple_upper\<close> holds the mappings to one code point, as runs \<open>(lo, hi, step, up)\<close>:
  the code points \<open>lo\<close>, \<open>lo + step\<close>, ... up to \<open>hi\<close> become \<open>up\<close>,
  \<open>up + step\<close>, ... (the letters \<open>a\<close> to \<open>z\<close> are the run \<open>(0x61, 0x7A, 1, 0x41)\<close>).
  The runs are in increasing order and do not overlap, so the search stops at the first
  run that starts after the code point. \<open>special_upper\<close> holds the mappings to several
  code points.
\<close>

definition simple_upper :: "(nat \<times> nat \<times> nat \<times> nat) list" where
  "simple_upper =
     [(0x61, 0x7A, 1, 0x41), (0xB5, 0xB5, 1, 0x39C), (0xE0, 0xF6, 1, 0xC0), (0xF8, 0xFE, 1, 0xD8),
      (0xFF, 0xFF, 1, 0x178), (0x101, 0x12F, 2, 0x100), (0x131, 0x131, 1, 0x49),
      (0x133, 0x137, 2, 0x132), (0x13A, 0x148, 2, 0x139), (0x14B, 0x177, 2, 0x14A),
      (0x17A, 0x17E, 2, 0x179), (0x17F, 0x17F, 1, 0x53), (0x180, 0x180, 1, 0x243),
      (0x183, 0x185, 2, 0x182), (0x188, 0x188, 1, 0x187), (0x18C, 0x18C, 1, 0x18B),
      (0x192, 0x192, 1, 0x191), (0x195, 0x195, 1, 0x1F6), (0x199, 0x199, 1, 0x198),
      (0x19A, 0x19A, 1, 0x23D), (0x19E, 0x19E, 1, 0x220), (0x1A1, 0x1A5, 2, 0x1A0),
      (0x1A8, 0x1A8, 1, 0x1A7), (0x1AD, 0x1AD, 1, 0x1AC), (0x1B0, 0x1B0, 1, 0x1AF),
      (0x1B4, 0x1B6, 2, 0x1B3), (0x1B9, 0x1B9, 1, 0x1B8), (0x1BD, 0x1BD, 1, 0x1BC),
      (0x1BF, 0x1BF, 1, 0x1F7), (0x1C5, 0x1C5, 1, 0x1C4), (0x1C6, 0x1C6, 1, 0x1C4),
      (0x1C8, 0x1C8, 1, 0x1C7), (0x1C9, 0x1C9, 1, 0x1C7), (0x1CB, 0x1CB, 1, 0x1CA),
      (0x1CC, 0x1CC, 1, 0x1CA), (0x1CE, 0x1DC, 2, 0x1CD), (0x1DD, 0x1DD, 1, 0x18E),
      (0x1DF, 0x1EF, 2, 0x1DE), (0x1F2, 0x1F2, 1, 0x1F1), (0x1F3, 0x1F3, 1, 0x1F1),
      (0x1F5, 0x1F5, 1, 0x1F4), (0x1F9, 0x21F, 2, 0x1F8), (0x223, 0x233, 2, 0x222),
      (0x23C, 0x23C, 1, 0x23B), (0x23F, 0x240, 1, 0x2C7E), (0x242, 0x242, 1, 0x241),
      (0x247, 0x24F, 2, 0x246), (0x250, 0x250, 1, 0x2C6F), (0x251, 0x251, 1, 0x2C6D),
      (0x252, 0x252, 1, 0x2C70), (0x253, 0x253, 1, 0x181), (0x254, 0x254, 1, 0x186),
      (0x256, 0x257, 1, 0x189), (0x259, 0x259, 1, 0x18F), (0x25B, 0x25B, 1, 0x190),
      (0x25C, 0x25C, 1, 0xA7AB), (0x260, 0x260, 1, 0x193), (0x261, 0x261, 1, 0xA7AC),
      (0x263, 0x263, 1, 0x194), (0x265, 0x265, 1, 0xA78D), (0x266, 0x266, 1, 0xA7AA),
      (0x268, 0x268, 1, 0x197), (0x269, 0x269, 1, 0x196), (0x26A, 0x26A, 1, 0xA7AE),
      (0x26B, 0x26B, 1, 0x2C62), (0x26C, 0x26C, 1, 0xA7AD), (0x26F, 0x26F, 1, 0x19C),
      (0x271, 0x271, 1, 0x2C6E), (0x272, 0x272, 1, 0x19D), (0x275, 0x275, 1, 0x19F),
      (0x27D, 0x27D, 1, 0x2C64), (0x280, 0x280, 1, 0x1A6), (0x282, 0x282, 1, 0xA7C5),
      (0x283, 0x283, 1, 0x1A9), (0x287, 0x287, 1, 0xA7B1), (0x288, 0x288, 1, 0x1AE),
      (0x289, 0x289, 1, 0x244), (0x28A, 0x28B, 1, 0x1B1), (0x28C, 0x28C, 1, 0x245),
      (0x292, 0x292, 1, 0x1B7), (0x29D, 0x29D, 1, 0xA7B2), (0x29E, 0x29E, 1, 0xA7B0),
      (0x345, 0x345, 1, 0x399), (0x371, 0x373, 2, 0x370), (0x377, 0x377, 1, 0x376),
      (0x37B, 0x37D, 1, 0x3FD), (0x3AC, 0x3AC, 1, 0x386), (0x3AD, 0x3AF, 1, 0x388),
      (0x3B1, 0x3C1, 1, 0x391), (0x3C2, 0x3C2, 1, 0x3A3), (0x3C3, 0x3CB, 1, 0x3A3),
      (0x3CC, 0x3CC, 1, 0x38C), (0x3CD, 0x3CE, 1, 0x38E), (0x3D0, 0x3D0, 1, 0x392),
      (0x3D1, 0x3D1, 1, 0x398), (0x3D5, 0x3D5, 1, 0x3A6), (0x3D6, 0x3D6, 1, 0x3A0),
      (0x3D7, 0x3D7, 1, 0x3CF), (0x3D9, 0x3EF, 2, 0x3D8), (0x3F0, 0x3F0, 1, 0x39A),
      (0x3F1, 0x3F1, 1, 0x3A1), (0x3F2, 0x3F2, 1, 0x3F9), (0x3F3, 0x3F3, 1, 0x37F),
      (0x3F5, 0x3F5, 1, 0x395), (0x3F8, 0x3F8, 1, 0x3F7), (0x3FB, 0x3FB, 1, 0x3FA),
      (0x430, 0x44F, 1, 0x410), (0x450, 0x45F, 1, 0x400), (0x461, 0x481, 2, 0x460),
      (0x48B, 0x4BF, 2, 0x48A), (0x4C2, 0x4CE, 2, 0x4C1), (0x4CF, 0x4CF, 1, 0x4C0),
      (0x4D1, 0x52F, 2, 0x4D0), (0x561, 0x586, 1, 0x531), (0x10D0, 0x10FA, 1, 0x1C90),
      (0x10FD, 0x10FF, 1, 0x1CBD), (0x13F8, 0x13FD, 1, 0x13F0), (0x1C80, 0x1C80, 1, 0x412),
      (0x1C81, 0x1C81, 1, 0x414), (0x1C82, 0x1C82, 1, 0x41E), (0x1C83, 0x1C84, 1, 0x421),
      (0x1C85, 0x1C85, 1, 0x422), (0x1C86, 0x1C86, 1, 0x42A), (0x1C87, 0x1C87, 1, 0x462),
      (0x1C88, 0x1C88, 1, 0xA64A), (0x1D79, 0x1D79, 1, 0xA77D), (0x1D7D, 0x1D7D, 1, 0x2C63),
      (0x1D8E, 0x1D8E, 1, 0xA7C6), (0x1E01, 0x1E95, 2, 0x1E00), (0x1E9B, 0x1E9B, 1, 0x1E60),
      (0x1EA1, 0x1EFF, 2, 0x1EA0), (0x1F00, 0x1F07, 1, 0x1F08), (0x1F10, 0x1F15, 1, 0x1F18),
      (0x1F20, 0x1F27, 1, 0x1F28), (0x1F30, 0x1F37, 1, 0x1F38), (0x1F40, 0x1F45, 1, 0x1F48),
      (0x1F51, 0x1F57, 2, 0x1F59), (0x1F60, 0x1F67, 1, 0x1F68), (0x1F70, 0x1F71, 1, 0x1FBA),
      (0x1F72, 0x1F75, 1, 0x1FC8), (0x1F76, 0x1F77, 1, 0x1FDA), (0x1F78, 0x1F79, 1, 0x1FF8),
      (0x1F7A, 0x1F7B, 1, 0x1FEA), (0x1F7C, 0x1F7D, 1, 0x1FFA), (0x1FB0, 0x1FB1, 1, 0x1FB8),
      (0x1FBE, 0x1FBE, 1, 0x399), (0x1FD0, 0x1FD1, 1, 0x1FD8), (0x1FE0, 0x1FE1, 1, 0x1FE8),
      (0x1FE5, 0x1FE5, 1, 0x1FEC), (0x214E, 0x214E, 1, 0x2132), (0x2170, 0x217F, 1, 0x2160),
      (0x2184, 0x2184, 1, 0x2183), (0x24D0, 0x24E9, 1, 0x24B6), (0x2C30, 0x2C5F, 1, 0x2C00),
      (0x2C61, 0x2C61, 1, 0x2C60), (0x2C65, 0x2C65, 1, 0x23A), (0x2C66, 0x2C66, 1, 0x23E),
      (0x2C68, 0x2C6C, 2, 0x2C67), (0x2C73, 0x2C73, 1, 0x2C72), (0x2C76, 0x2C76, 1, 0x2C75),
      (0x2C81, 0x2CE3, 2, 0x2C80), (0x2CEC, 0x2CEE, 2, 0x2CEB), (0x2CF3, 0x2CF3, 1, 0x2CF2),
      (0x2D00, 0x2D25, 1, 0x10A0), (0x2D27, 0x2D27, 1, 0x10C7), (0x2D2D, 0x2D2D, 1, 0x10CD),
      (0xA641, 0xA66D, 2, 0xA640), (0xA681, 0xA69B, 2, 0xA680), (0xA723, 0xA72F, 2, 0xA722),
      (0xA733, 0xA76F, 2, 0xA732), (0xA77A, 0xA77C, 2, 0xA779), (0xA77F, 0xA787, 2, 0xA77E),
      (0xA78C, 0xA78C, 1, 0xA78B), (0xA791, 0xA793, 2, 0xA790), (0xA794, 0xA794, 1, 0xA7C4),
      (0xA797, 0xA7A9, 2, 0xA796), (0xA7B5, 0xA7C3, 2, 0xA7B4), (0xA7C8, 0xA7CA, 2, 0xA7C7),
      (0xA7D1, 0xA7D1, 1, 0xA7D0), (0xA7D7, 0xA7D9, 2, 0xA7D6), (0xA7F6, 0xA7F6, 1, 0xA7F5),
      (0xAB53, 0xAB53, 1, 0xA7B3), (0xAB70, 0xABBF, 1, 0x13A0), (0xFF41, 0xFF5A, 1, 0xFF21),
      (0x10428, 0x1044F, 1, 0x10400), (0x104D8, 0x104FB, 1, 0x104B0),
      (0x10597, 0x105A1, 1, 0x10570), (0x105A3, 0x105B1, 1, 0x1057C),
      (0x105B3, 0x105B9, 1, 0x1058C), (0x105BB, 0x105BC, 1, 0x10594),
      (0x10CC0, 0x10CF2, 1, 0x10C80), (0x118C0, 0x118DF, 1, 0x118A0),
      (0x16E60, 0x16E7F, 1, 0x16E40), (0x1E922, 0x1E943, 1, 0x1E900)]"

definition special_upper :: "(nat \<times> nat list) list" where
  "special_upper =
     [(0xDF, [0x53, 0x53]), (0x149, [0x2BC, 0x4E]), (0x1F0, [0x4A, 0x30C]),
      (0x390, [0x399, 0x308, 0x301]), (0x3B0, [0x3A5, 0x308, 0x301]), (0x587, [0x535, 0x552]),
      (0x1E96, [0x48, 0x331]), (0x1E97, [0x54, 0x308]), (0x1E98, [0x57, 0x30A]),
      (0x1E99, [0x59, 0x30A]), (0x1E9A, [0x41, 0x2BE]), (0x1F50, [0x3A5, 0x313]),
      (0x1F52, [0x3A5, 0x313, 0x300]), (0x1F54, [0x3A5, 0x313, 0x301]),
      (0x1F56, [0x3A5, 0x313, 0x342]), (0x1F80, [0x1F08, 0x399]), (0x1F81, [0x1F09, 0x399]),
      (0x1F82, [0x1F0A, 0x399]), (0x1F83, [0x1F0B, 0x399]), (0x1F84, [0x1F0C, 0x399]),
      (0x1F85, [0x1F0D, 0x399]), (0x1F86, [0x1F0E, 0x399]), (0x1F87, [0x1F0F, 0x399]),
      (0x1F88, [0x1F08, 0x399]), (0x1F89, [0x1F09, 0x399]), (0x1F8A, [0x1F0A, 0x399]),
      (0x1F8B, [0x1F0B, 0x399]), (0x1F8C, [0x1F0C, 0x399]), (0x1F8D, [0x1F0D, 0x399]),
      (0x1F8E, [0x1F0E, 0x399]), (0x1F8F, [0x1F0F, 0x399]), (0x1F90, [0x1F28, 0x399]),
      (0x1F91, [0x1F29, 0x399]), (0x1F92, [0x1F2A, 0x399]), (0x1F93, [0x1F2B, 0x399]),
      (0x1F94, [0x1F2C, 0x399]), (0x1F95, [0x1F2D, 0x399]), (0x1F96, [0x1F2E, 0x399]),
      (0x1F97, [0x1F2F, 0x399]), (0x1F98, [0x1F28, 0x399]), (0x1F99, [0x1F29, 0x399]),
      (0x1F9A, [0x1F2A, 0x399]), (0x1F9B, [0x1F2B, 0x399]), (0x1F9C, [0x1F2C, 0x399]),
      (0x1F9D, [0x1F2D, 0x399]), (0x1F9E, [0x1F2E, 0x399]), (0x1F9F, [0x1F2F, 0x399]),
      (0x1FA0, [0x1F68, 0x399]), (0x1FA1, [0x1F69, 0x399]), (0x1FA2, [0x1F6A, 0x399]),
      (0x1FA3, [0x1F6B, 0x399]), (0x1FA4, [0x1F6C, 0x399]), (0x1FA5, [0x1F6D, 0x399]),
      (0x1FA6, [0x1F6E, 0x399]), (0x1FA7, [0x1F6F, 0x399]), (0x1FA8, [0x1F68, 0x399]),
      (0x1FA9, [0x1F69, 0x399]), (0x1FAA, [0x1F6A, 0x399]), (0x1FAB, [0x1F6B, 0x399]),
      (0x1FAC, [0x1F6C, 0x399]), (0x1FAD, [0x1F6D, 0x399]), (0x1FAE, [0x1F6E, 0x399]),
      (0x1FAF, [0x1F6F, 0x399]), (0x1FB2, [0x1FBA, 0x399]), (0x1FB3, [0x391, 0x399]),
      (0x1FB4, [0x386, 0x399]), (0x1FB6, [0x391, 0x342]), (0x1FB7, [0x391, 0x342, 0x399]),
      (0x1FBC, [0x391, 0x399]), (0x1FC2, [0x1FCA, 0x399]), (0x1FC3, [0x397, 0x399]),
      (0x1FC4, [0x389, 0x399]), (0x1FC6, [0x397, 0x342]), (0x1FC7, [0x397, 0x342, 0x399]),
      (0x1FCC, [0x397, 0x399]), (0x1FD2, [0x399, 0x308, 0x300]), (0x1FD3, [0x399, 0x308, 0x301]),
      (0x1FD6, [0x399, 0x342]), (0x1FD7, [0x399, 0x308, 0x342]), (0x1FE2, [0x3A5, 0x308, 0x300]),
      (0x1FE3, [0x3A5, 0x308, 0x301]), (0x1FE4, [0x3A1, 0x313]), (0x1FE6, [0x3A5, 0x342]),
      (0x1FE7, [0x3A5, 0x308, 0x342]), (0x1FF2, [0x1FFA, 0x399]), (0x1FF3, [0x3A9, 0x399]),
      (0x1FF4, [0x38F, 0x399]), (0x1FF6, [0x3A9, 0x342]), (0x1FF7, [0x3A9, 0x342, 0x399]),
      (0x1FFC, [0x3A9, 0x399]), (0xFB00, [0x46, 0x46]), (0xFB01, [0x46, 0x49]),
      (0xFB02, [0x46, 0x4C]), (0xFB03, [0x46, 0x46, 0x49]), (0xFB04, [0x46, 0x46, 0x4C]),
      (0xFB05, [0x53, 0x54]), (0xFB06, [0x53, 0x54]), (0xFB13, [0x544, 0x546]),
      (0xFB14, [0x544, 0x535]), (0xFB15, [0x544, 0x53B]), (0xFB16, [0x54E, 0x546]),
      (0xFB17, [0x544, 0x53D])]"

fun upper_in :: "(nat \<times> nat \<times> nat \<times> nat) list \<Rightarrow> nat \<Rightarrow> nat" where
  "upper_in [] cp = cp"
| "upper_in ((lo, hi, step, up) # runs) cp =
     (if cp < lo then cp
      else if cp \<le> hi \<and> (cp - lo) mod step = 0 then up + (cp - lo)
      else upper_in runs cp)"

definition upper_case :: "nat \<Rightarrow> nat list" where
  "upper_case cp =
     (case map_of special_upper cp of
        Some us \<Rightarrow> us
      | None \<Rightarrow> [upper_in simple_upper cp])"

text \<open>
  Bytes that are not the UTF-8 encoding of a code point (no string of the language is
  written with such bytes) are left as they are.
\<close>

definition upper_character :: "string \<Rightarrow> string" where
  "upper_character c =
     (if utf8 (code_point c) = c then concat (map utf8 (upper_case (code_point c))) else c)"

definition toUpperCase :: "string \<Rightarrow> string" where
  "toUpperCase s = concat (map upper_character (characters s))"

text \<open>
  \<open>encodeURIComponent\<close>: letters, digits and \<open>- _ . ! ~ * ' ( )\<close> stay, every other
  byte of the UTF-8 encoding becomes \<open>%XX\<close>. (It throws only on an unpaired surrogate,
  which a UTF-8 string does not hold.)
\<close>

definition unreserved :: "char \<Rightarrow> bool" where
  "unreserved c =
     (c \<in> set ''ABCDEFGHIJKLMNOPQRSTUVWXYZabcdefghijklmnopqrstuvwxyz0123456789-_.!~*'()'')"

definition encode_char :: "char \<Rightarrow> string" where
  "encode_char c =
     (if unreserved c then [c]
      else [CHR ''%'', hex_char ((of_char c :: nat) div 16), hex_char ((of_char c :: nat) mod 16)])"

definition encodeURIComponent :: "string \<Rightarrow> string" where
  "encodeURIComponent s = concat (map encode_char s)"

section \<open>The network\<close>

text \<open>
  \<open>fetch\<close> is the host's: a request is answered by a rejection or by a response, whose
  \<open>json()\<close> in turn rejects or gives a value. \<open>response.ok\<close> is true for the statuses
  200 to 299. Each client returns, with its result, what it did to the outside: the
  requests it sent and the lines it wrote to the console, in order.
\<close>

record request =
  url :: string
  headers :: "(string \<times> string) list"

record response =
  status :: nat
  body_json :: "js_error + json"

definition ok :: "response \<Rightarrow> bool" where
  "ok r = (200 \<le> status r \<and> status r \<le> 299)"

type_synonym network = "request \<Rightarrow> js_error + response"

datatype effect = Fetch request | ConsoleError string js_error

section \<open>Search client\<close>

definition YAHOO_SEARCH_BASE :: string where
  "YAHOO_SEARCH_BASE = ''https://query1.finance.yahoo.com/v1/finance/search''"

definition ZACKS_QUOTE_BASE :: string where
  "ZACKS_QUOTE_BASE = ''https://quote-feed.zacks.com/index''"

record TickerSearchResult =
  symbol :: "json option"
  name :: "json option"

text \<open>The request of \<open>searchTickers\<close>.\<close>

definition search_request :: "string \<Rightarrow> request" where
  "search_request query =
     \<lparr>url = YAHOO_SEARCH_BASE @ ''?q='' @ encodeURIComponent query @
              ''&quotesCount=10&newsCount=0&listsCount=0'',
      headers = [(''User-Agent'', ''Mozilla/5.0 (Macintosh; Intel Mac OS X 10_15_7)'')]\<rparr>"

text \<open>\<open>(q) => q.quoteType === "EQUITY" || q.quoteType === "ETF"\<close>\<close>

definition is_stock_or_etf :: "json \<Rightarrow> js_error + bool" where
  "is_stock_or_etf q =
     (case get_prop q ''quoteType'' of
        Inl e \<Rightarrow> Inl e
      | Inr t \<Rightarrow> Inr (t = Some (JStr ''EQUITY'') \<or> t = Some (JStr ''ETF'')))"

text \<open>\<open>(q) => ({ symbol: q.symbol, name: q.longname || q.shortname || q.symbol })\<close>\<close>

definition to_result :: "json \<Rightarrow> js_error + TickerSearchResult" where
  "to_result q =
     (case get_prop q ''symbol'' of
        Inl e \<Rightarrow> Inl e
      | Inr symb \<Rightarrow>
          (case get_prop q ''longname'' of
             Inl e \<Rightarrow> Inl e
           | Inr long \<Rightarrow>
               (case get_prop q ''shortname'' of
                  Inl e \<Rightarrow> Inl e
                | Inr short \<Rightarrow> Inr \<lparr>symbol = symb, name = js_or (js_or long short) symb\<rparr>)))"

text \<open>
  \<open>data.quotes.filter(...).map(...)\<close>: \<open>data.quotes\<close> has a \<open>filter\<close> method only when
  it is an array.
\<close>

definition map_quotes :: "json \<Rightarrow> js_error + TickerSearchResult list" where
  "map_quotes data =
     (case get_prop data ''quotes'' of
        Inl e \<Rightarrow> Inl e
      | Inr (Some (JArr quotes)) \<Rightarrow>
          (case js_filter is_stock_or_etf quotes of
             Inl e \<Rightarrow> Inl e
           | Inr kept \<Rightarrow> js_map to_result kept)
      | Inr _ \<Rightarrow> Inl TypeError)"

text \<open>The body of the \<open>try\<close> block, after the request is sent.\<close>

definition search_response :: "js_error + response \<Rightarrow> js_error + TickerSearchResult list" where
  "search_response answer =
     (case answer of
        Inl e \<Rightarrow> Inl e
      | Inr response \<Rightarrow>
          if \<not> ok response then Inl (Error (''Search failed: '' @ digits_of (status response)))
          else (case body_json response of
                  Inl e \<Rightarrow> Inl e
                | Inr data \<Rightarrow> map_quotes data))"

definition searchTickers :: "network \<Rightarrow> string \<Rightarrow> effect list \<times> (js_error + TickerSearchResult list)" where
  "searchTickers net query =
     (if query = [] then ([], Inr [])
      else (case search_response (net (search_request query)) of
              Inl error \<Rightarrow>
                ([Fetch (search_request query), ConsoleError ''Ticker search error:'' error], Inr [])
            | Inr results \<Rightarrow> ([Fetch (search_request query)], Inr results)))"

section \<open>Quote client\<close>

definition quote_request :: "string \<Rightarrow> request" where
  "quote_request ticker =
     \<lparr>url = ZACKS_QUOTE_BASE @ ''?t='' @ encodeURIComponent (toUpperCase ticker), headers = []\<rparr>"

text \<open>\<open>const tickerData = data[ticker.toUpperCase()]; return tickerData || null\<close>\<close>

definition ticker_data :: "json \<Rightarrow> string \<Rightarrow> js_error + json" where
  "ticker_data data ticker =
     (case get_elem data (toUpperCase ticker) of
        Inl e \<Rightarrow> Inl e
      | Inr None \<Rightarrow> Inr JNull
      | Inr (Some tickerData) \<Rightarrow> Inr (if truthy (Some tickerData) then tickerData else JNull))"

definition quote_response :: "js_error + response \<Rightarrow> string \<Rightarrow> js_error + json" where
  "quote_response answer ticker =
     (case answer of
        Inl e \<Rightarrow> Inl e
      | Inr response \<Rightarrow>
          if \<not> ok response then Inl (Error (''Zacks API failed: '' @ digits_of (status response)))
          else (case body_json response of
                  Inl e \<Rightarrow> Inl e
                | Inr data \<Rightarrow> ticker_data data ticker))"

text \<open>The result \<open>null\<close> is \<open>JNull\<close>.\<close>

definition getZacksData :: "network \<Rightarrow> string \<Rightarrow> effect list \<times> (js_error + json)" where
  "getZacksData net ticker =
     (case quote_response (net (quote_request ticker)) ticker of
        Inl error \<Rightarrow> ([Fetch (quote_request ticker), ConsoleError ''Zacks API error:'' error], Inr JNull)
      | Inr tickerData \<Rightarrow> ([Fetch (quote_request ticker)], Inr tickerData))"


section \<open>Notions used to state the properties of the clients\<close>

text \<open>What the three failures of the claim are, for a request and the network's answer to it.\<close>

definition request_failed :: "js_error + response \<Rightarrow> bool" where
  "request_failed answer =
     (case answer of
        Inl e \<Rightarrow> True
      | Inr response \<Rightarrow> \<not> ok response \<or> (case body_json response of Inl e \<Rightarrow> True | Inr data \<Rightarrow> False))"

text \<open>
  The entries of a search response as the source declares them (\<open>interface YahooQuote\<close>):
  the two names are optional.
\<close>

record YahooQuote =
  symbol :: string
  shortname :: "string option"
  longname :: "string option"
  quoteType :: string
  exchange :: string

text \<open>A JSON value is a well-formed entry when it is an object with these properties.\<close>

fun quote_json :: "YahooQuote \<Rightarrow> json \<Rightarrow> bool" where
  "quote_json q (JObj m) =
     (map_of m ''symbol'' = Some (JStr (YahooQuote.symbol q)) \<and>
      map_of m ''shortname'' = map_option JStr (shortname q) \<and>
      map_of m ''longname'' = map_option JStr (longname q) \<and>
      map_of m ''quoteType'' = Some (JStr (quoteType q)) \<and>
      map_of m ''exchange'' = Some (JStr (exchange q)))"
| "quote_json q v = False"

text \<open>A well-formed search response: an object whose \<open>quotes\<close> is an array of entries.\<close>

definition search_data :: "YahooQuote list \<Rightarrow> json \<Rightarrow> bool" where
  "search_data qs data =
     (case get_prop data ''quotes'' of
        Inr (Some (JArr js)) \<Rightarrow> list_all2 quote_json qs js
      | _ \<Rightarrow> False)"

definition kept :: "YahooQuote \<Rightarrow> bool" where
  "kept q = (quoteType q = ''EQUITY'' \<or> quoteType q = ''ETF'')"

text \<open>The name as the claim has it: the long name if present, else the short name, else the symbol.\<close>

definition name_if_present :: "YahooQuote \<Rightarrow> string" where
  "name_if_present q =
     (case longname q of
        Some l \<Rightarrow> l
      | None \<Rightarrow> (case shortname q of Some s \<Rightarrow> s | None \<Rightarrow> YahooQuote.symbol q))"

text \<open>The name as \<open>||\<close> chooses it: a name that is the empty string counts as absent.\<close>

definition given :: "string option \<Rightarrow> bool" where
  "given s = (case s of None \<Rightarrow> False | Some t \<Rightarrow> t \<noteq> [])"

definition name_if_given :: "YahooQuote \<Rightarrow> string" where
  "name_if_given q =
     (if given (longname q) then the (longname q)
      else if given (shortname q) then the (shortname q)
      else YahooQuote.symbol q)"

definition result_of :: "(YahooQuote \<Rightarrow> string) \<Rightarrow> YahooQuote \<Rightarrow> TickerSearchResult" where
  "result_of nm q =
     \<lparr>TickerSearchResult.symbol = Some (JStr (YahooQuote.symbol q)), name = Some (JStr (nm q))\<rparr>"

text \<open>
  The ASCII characters, of which ticker symbols are made, and the upper case of one: the
  26 letters change, every other character stays.
\<close>

definition ascii :: "char \<Rightarrow> bool" where
  "ascii c = ((of_char c :: nat) < 128)"

definition upper_char :: "char \<Rightarrow> char" where
  "upper_char c =
     (case map_of (zip ''abcdefghijklmnopqrstuvwxyz'' ''ABCDEFGHIJKLMNOPQRSTUVWXYZ'') c of
        Some u \<Rightarrow> u
      | None \<Rightarrow> c)"

text \<open>The requests in a list of effects, in order.\<close>

fun requests_of :: "effect list \<Rightarrow> request list" where
  "requests_of [] = []"
| "requests_of (Fetch r # es) = r # requests_of es"
| "requests_of (ConsoleError label e # es) = requests_of es"

section \<open>Numbers\<close>

text \<open>
  The double nearest to a rational, ties to the even significand (the rounding of the
  language's numeric literals and of \<open>parseFloat\<close>). A double is a multiple of
  \<open>2 ^ (e - 52)\<close>, where \<open>e\<close> is the binary exponent of the value and at least -1022;
  what rounds to \<open>2 ^ 1024\<close> or more is infinite.
\<close>

definition pow2 :: "int \<Rightarrow> rat" where
  "pow2 e = (if 0 \<le> e then 2 ^ nat e else 1 / 2 ^ nat (- e))"

definition pow10 :: "int \<Rightarrow> rat" where
  "pow10 e = (if 0 \<le> e then 10 ^ nat e else 1 / 10 ^ nat (- e))"

fun bitlen :: "nat \<Rightarrow> nat" where
  "bitlen n = (if n = 0 then 0 else Suc (bitlen (n div 2)))"

declare bitlen.simps [simp del]

text \<open>
  The floor of the logarithm of a positive rational, to the base 2 and to the base 10: from
  the length of its integer part when it is 1 or more, of the integer part of its inverse
  otherwise.
\<close>

definition ilog2 :: "rat \<Rightarrow> int" where
  "ilog2 q =
     (if 1 \<le> q then int (bitlen (nat \<lfloor>q\<rfloor>)) - 1
      else - int (bitlen (nat (\<lceil>1 / q\<rceil> - 1))))"

definition ilog10 :: "rat \<Rightarrow> int" where
  "ilog10 q =
     (if 1 \<le> q then int (length (digits_of (nat \<lfloor>q\<rfloor>))) - 1
      else - int (length (digits_of (nat (\<lceil>1 / q\<rceil> - 1)))))"

definition round_half_even :: "rat \<Rightarrow> int" where
  "round_half_even x =
     (let f = \<lfloor>x\<rfloor>; r = x - of_int f
      in if r < 1 / 2 then f else if 1 / 2 < r then f + 1 else if even f then f else f + 1)"

definition round_double :: "rat \<Rightarrow> js_number" where
  "round_double q =
     (if q = 0 then Finite 0
      else let ulp = pow2 (max (ilog2 \<bar>q\<bar>) (- 1022) - 52);
               r = of_int (round_half_even (\<bar>q\<bar> / ulp)) * ulp
           in if pow2 1024 \<le> r then (if q < 0 then NegInfinity else PosInfinity)
              else Finite (if q < 0 then - r else r))"

text \<open>
  \<open>Number::toString\<close> of a positive finite double \<open>x\<close>: the digits \<open>s\<close>, their number
  \<open>k\<close> and the position \<open>n\<close> of the decimal point are such that \<open>s * 10 ^ (n - k)\<close>
  rounds to \<open>x\<close>, with \<open>k\<close> as small as possible and then \<open>s\<close> as close to \<open>x\<close> as
  possible. For a given \<open>k\<close> the candidates are the two multiples of \<open>10 ^ (n - k)\<close>
  around \<open>x\<close>.
\<close>

definition candidates :: "rat \<Rightarrow> nat \<Rightarrow> (int \<times> nat) list" where
  "candidates x k =
     concat (map (\<lambda>n. concat (map (\<lambda>s.
         if 10 ^ (k - 1) \<le> s \<and> s < 10 ^ k \<and> round_double (of_nat s * pow10 (n - int k)) = Finite x
         then [(n, s)] else [])
       [nat \<lfloor>x / pow10 (n - int k)\<rfloor>, nat \<lfloor>x / pow10 (n - int k)\<rfloor> + 1]))
     [ilog10 x + 1, ilog10 x + 2])"

definition closest :: "rat \<Rightarrow> nat \<Rightarrow> (int \<times> nat) list \<Rightarrow> int \<times> nat" where
  "closest x k cs =
     foldl (\<lambda>(n, s) (n', s').
        if \<bar>of_nat s' * pow10 (n' - int k) - x\<bar> < \<bar>of_nat s * pow10 (n - int k) - x\<bar> then (n', s') else (n, s))
       (hd cs) (tl cs)"

function shortest_digits :: "rat \<Rightarrow> nat \<Rightarrow> int \<times> nat \<times> nat" where
  "shortest_digits x k =
     (if candidates x k \<noteq> [] then (fst (closest x k (candidates x k)), k, snd (closest x k (candidates x k)))
      else if 17 \<le> k then (ilog10 x + 1, k, nat (round_half_even (x / pow10 (ilog10 x + 1 - int k))))
      else shortest_digits x (Suc k))"
  by pat_completeness auto
termination
  by (relation "measure (\<lambda>(x, k). 17 - k)") auto

declare shortest_digits.simps [simp del]

definition zeros :: "nat \<Rightarrow> string" where
  "zeros n = replicate n CHR ''0''"

definition exponent_digits :: "int \<times> nat \<times> nat \<Rightarrow> string" where
  "exponent_digits nks =
     (case nks of (n, k, s) \<Rightarrow>
        if - 5 \<le> n \<and> n \<le> 21 then
          (if int k \<le> n then digits_of s @ zeros (nat n - k)
           else if 0 < n then take (nat n) (digits_of s) @ ''.'' @ drop (nat n) (digits_of s)
           else ''0.'' @ zeros (nat (- n)) @ digits_of s)
        else
          (if k = 1 then digits_of s else take 1 (digits_of s) @ ''.'' @ drop 1 (digits_of s)) @
          ''e'' @ (if 0 \<le> n - 1 then ''+'' else ''-'') @ digits_of (nat \<bar>n - 1\<bar>))"

text \<open>
  An integer below \<open>2 ^ 53\<close> is its own shortest representation (its neighbours among the
  doubles are at most 1 away), so it is printed digit by digit.
\<close>

definition positive_toString :: "rat \<Rightarrow> string" where
  "positive_toString x =
     (if of_int \<lfloor>x\<rfloor> = x \<and> x < 2 ^ 53 then digits_of (nat \<lfloor>x\<rfloor>)
      else exponent_digits (shortest_digits x 1))"

definition Number_toString :: "js_number \<Rightarrow> string" where
  "Number_toString x =
     (case x of
        NaN \<Rightarrow> ''NaN''
      | PosInfinity \<Rightarrow> ''Infinity''
      | NegInfinity \<Rightarrow> ''-Infinity''
      | Finite q \<Rightarrow>
          if q = 0 then ''0''
          else if q < 0 then ''-'' @ positive_toString (- q)
          else positive_toString q)"

text \<open>
  \<open>Number.prototype.toFixed\<close> with \<open>f\<close> digits after the point (\<open>f\<close> at most 100): the
  integer \<open>n\<close> with \<open>n / 10 ^ f\<close> nearest to the value, the larger one of two.
\<close>

definition toFixed :: "js_number \<Rightarrow> nat \<Rightarrow> string" where
  "toFixed x f =
     (case x of
        Finite q \<Rightarrow>
          (if q < 0 then ''-'' else []) @
          (if 10 ^ 21 \<le> \<bar>q\<bar> then positive_toString \<bar>q\<bar>
           else let m = digits_of (nat \<lfloor>\<bar>q\<bar> * 10 ^ f + 1 / 2\<rfloor>);
                    m = (if length m \<le> f then zeros (f + 1 - length m) @ m else m)
                in if f = 0 then m
                   else take (length m - f) m @ ''.'' @ drop (length m - f) m)
      | _ \<Rightarrow> Number_toString x)"

text \<open>\<open>num >= 0\<close> and \<open>isNaN(num)\<close>\<close>

definition ge_zero :: "js_number \<Rightarrow> bool" where
  "ge_zero x = (case x of NaN \<Rightarrow> False | PosInfinity \<Rightarrow> True | NegInfinity \<Rightarrow> False | Finite q \<Rightarrow> 0 \<le> q)"

definition isNaN :: "js_number \<Rightarrow> bool" where
  "isNaN x = (x = NaN)"

definition negate :: "js_number \<Rightarrow> js_number" where
  "negate x = (case x of NaN \<Rightarrow> NaN | PosInfinity \<Rightarrow> NegInfinity | NegInfinity \<Rightarrow> PosInfinity | Finite q \<Rightarrow> Finite (- q))"

section \<open>Formatters\<close>

text \<open>
  The white space \<open>parseFloat\<close> skips (\<open>StrWhiteSpaceChar\<close>), in UTF-8: tab, line feed,
  vertical tab, form feed, carriage return and space; U+00A0; U+1680, U+2000 to U+200A,
  U+2028, U+2029, U+202F, U+205F, U+3000 and U+FEFF. \<open>ws_length s\<close> is the number of bytes
  of the white space character that \<open>s\<close> starts with, 0 when it starts with none.
  The characters are listed by the length of their encodings.
\<close>

definition white_space_1 :: "string list" where
  "white_space_1 = [[CHR 0x09], [CHR 0x0A], [CHR 0x0B], [CHR 0x0C], [CHR 0x0D], [CHR 0x20]]"

definition white_space_2 :: "string list" where
  "white_space_2 = [[CHR 0xC2, CHR 0xA0]]"

definition white_space_3 :: "string list" where
  "white_space_3 =
     [[CHR 0xE1, CHR 0x9A, CHR 0x80],
      [CHR 0xE2, CHR 0x80, CHR 0x80], [CHR 0xE2, CHR 0x80, CHR 0x81], [CHR 0xE2, CHR 0x80, CHR 0x82],
      [CHR 0xE2, CHR 0x80, CHR 0x83], [CHR 0xE2, CHR 0x80, CHR 0x84], [CHR 0xE2, CHR 0x80, CHR 0x85],
      [CHR 0xE2, CHR 0x80, CHR 0x86], [CHR 0xE2, CHR 0x80, CHR 0x87], [CHR 0xE2, CHR 0x80, CHR 0x88],
      [CHR 0xE2, CHR 0x80, CHR 0x89], [CHR 0xE2, CHR 0x80, CHR 0x8A],
      [CHR 0xE2, CHR 0x80, CHR 0xA8], [CHR 0xE2, CHR 0x80, CHR 0xA9], [CHR 0xE2, CHR 0x80, CHR 0xAF],
      [CHR 0xE2, CHR 0x81, CHR 0x9F], [CHR 0xE3, CHR 0x80, CHR 0x80], [CHR 0xEF, CHR 0xBB, CHR 0xBF]]"

definition ws_length :: "string \<Rightarrow> nat" where
  "ws_length s =
     (if take 1 s \<in> set white_space_1 then 1
      else if take 2 s \<in> set white_space_2 then 2
      else if take 3 s \<in> set white_space_3 then 3
      else 0)"

function trim_start :: "string \<Rightarrow> string" where
  "trim_start s = (if ws_length s = 0 then s else trim_start (drop (ws_length s) s))"
  by pat_completeness auto
termination
proof (relation "measure length")
  show "wf (measure length)" by simp
next
  fix s :: string
  assume "ws_length s \<noteq> 0"
  moreover from this have "s \<noteq> []"
    by (auto simp: ws_length_def white_space_1_def white_space_2_def white_space_3_def)
  ultimately show "(drop (ws_length s) s, s) \<in> measure length" by simp
qed

declare trim_start.simps [simp del]

text \<open>
  \<open>ExponentPart\<close>: \<open>e\<close> or \<open>E\<close>, an optional sign and at least one digit. The value is
  0 when the string does not start with one.
\<close>

definition signed_integer :: "int \<Rightarrow> string \<Rightarrow> int" where
  "signed_integer sign s = sign * int (nat_of_digits (takeWhile is_digit s))"

definition exponent_part :: "string \<Rightarrow> int" where
  "exponent_part s =
     (case s of
        [] \<Rightarrow> 0
      | c # t \<Rightarrow>
          if c = CHR ''e'' \<or> c = CHR ''E'' then
            (case t of
               [] \<Rightarrow> 0
             | d # u \<Rightarrow>
                 if d = CHR ''+'' then signed_integer 1 u
                 else if d = CHR ''-'' then signed_integer (- 1) u
                 else signed_integer 1 t)
          else 0)"

text \<open>
  The longest prefix that is a \<open>StrUnsignedDecimalLiteral\<close> other than \<open>Infinity\<close>:
  digits, an optional point and digits, with a digit on one side of the point at least,
  and an optional exponent. Its mathematical value, \<open>None\<close> when there is no such prefix.
\<close>

definition after_integer :: "string \<Rightarrow> string" where
  "after_integer s = dropWhile is_digit s"

definition fraction_digits :: "string \<Rightarrow> string" where
  "fraction_digits s = (case after_integer s of [] \<Rightarrow> [] | c # t \<Rightarrow> if c = CHR ''.'' then takeWhile is_digit t else [])"

definition after_fraction :: "string \<Rightarrow> string" where
  "after_fraction s =
     (case after_integer s of [] \<Rightarrow> [] | c # t \<Rightarrow> if c = CHR ''.'' then dropWhile is_digit t else c # t)"

definition unsigned_decimal :: "string \<Rightarrow> rat option" where
  "unsigned_decimal s =
     (if takeWhile is_digit s = [] \<and> fraction_digits s = [] then None
      else Some (of_nat (nat_of_digits (takeWhile is_digit s @ fraction_digits s)) *
                 pow10 (exponent_part (after_fraction s) - int (length (fraction_digits s)))))"

definition unsigned_literal :: "string \<Rightarrow> js_number" where
  "unsigned_literal s =
     (if take 8 s = ''Infinity'' then PosInfinity
      else case unsigned_decimal s of None \<Rightarrow> NaN | Some q \<Rightarrow> round_double q)"

text \<open>
  \<open>parseFloat\<close>: leading white space is skipped, then the longest prefix that is a
  \<open>StrDecimalLiteral\<close> is rounded to a double; \<open>NaN\<close> when there is no such prefix.
\<close>

definition decimal_literal :: "string \<Rightarrow> js_number" where
  "decimal_literal s =
     (case s of
        [] \<Rightarrow> NaN
      | c # t \<Rightarrow>
          if c = CHR ''+'' then unsigned_literal t
          else if c = CHR ''-'' then negate (unsigned_literal t)
          else unsigned_literal s)"

definition parseFloat :: "string \<Rightarrow> js_number" where
  "parseFloat s = decimal_literal (trim_start s)"

text \<open>\<open>!value || value === "NA" || value === "-"\<close>\<close>

definition missing :: "string \<Rightarrow> bool" where
  "missing v = (v = [] \<or> v = ''NA'' \<or> v = ''-'')"

definition formatNumber :: "string \<Rightarrow> string" where
  "formatNumber v = (if missing v then ''N/A'' else v)"

definition formatPercent :: "string \<Rightarrow> string" where
  "formatPercent v =
     (if missing v then ''N/A''
      else let num = parseFloat v
           in if isNaN num then v
              else (if ge_zero num then ''+'' else []) @ toFixed num 2 @ ''%'')"

definition formatCurrency :: "string \<Rightarrow> string" where
  "formatCurrency v =
     (if missing v then ''N/A''
      else let num = parseFloat v
           in if isNaN num then v
              else ''$'' @ toFixed num 2)"

text \<open>A character that cannot continue a numeric literal.\<close>

definition non_numeric :: "char \<Rightarrow> bool" where
  "non_numeric c = (c \<notin> set ''0123456789.eE+-'')"

text \<open>
  The numeric prefix of a string: after the leading white space, the longest prefix that
  is a \<open>StrDecimalLiteral\<close>, that is an optional sign, then \<open>Infinity\<close> or digits with an
  optional point and an optional exponent (a digit on one side of the point at least, and
  a digit in the exponent at least). \<open>None\<close> when the string starts with no literal.
\<close>

definition exponent_text :: "string \<Rightarrow> string" where
  "exponent_text s =
     (case s of
        [] \<Rightarrow> []
      | c # t \<Rightarrow>
          if c = CHR ''e'' \<or> c = CHR ''E'' then
            (case t of
               [] \<Rightarrow> []
             | d # u \<Rightarrow>
                 if d = CHR ''+'' \<or> d = CHR ''-'' then
                   (if takeWhile is_digit u = [] then [] else c # d # takeWhile is_digit u)
                 else (if takeWhile is_digit t = [] then [] else c # takeWhile is_digit t))
          else [])"

definition point_text :: "string \<Rightarrow> string" where
  "point_text s = (case after_integer s of [] \<Rightarrow> [] | c # t \<Rightarrow> if c = CHR ''.'' then ''.'' else [])"

definition unsigned_text :: "string \<Rightarrow> string option" where
  "unsigned_text s =
     (if take 8 s = ''Infinity'' then Some ''Infinity''
      else if takeWhile is_digit s = [] \<and> fraction_digits s = [] then None
      else Some (takeWhile is_digit s @ point_text s @ fraction_digits s @
                 exponent_text (after_fraction s)))"

definition literal_text :: "string \<Rightarrow> string option" where
  "literal_text s =
     (case s of
        [] \<Rightarrow> None
      | c # t \<Rightarrow>
          if c = CHR ''+'' \<or> c = CHR ''-'' then map_option ((#) c) (unsigned_text t)
          else unsigned_text s)"

definition numeric_prefix :: "string \<Rightarrow> string option" where
  "numeric_prefix v = literal_text (trim_start v)"

section \<open>JSON text\<close>

subsection \<open>\<open>JSON.stringify\<close>\<close>

text \<open>
  A string is written between double quotes; the quote, the backslash and the control
  characters are escaped, every other byte stands for itself.
\<close>

definition hex_lower :: "nat \<Rightarrow> char" where
  "hex_lower d = (''0123456789abcdef'') ! d"

definition escape_char :: "char \<Rightarrow> string" where
  "escape_char c =
     (if c = CHR 0x22 then [CHR 0x5C, CHR 0x22]
      else if c = CHR 0x5C then [CHR 0x5C, CHR 0x5C]
      else if c = CHR 0x08 then [CHR 0x5C, CHR ''b'']
      else if c = CHR 0x0C then [CHR 0x5C, CHR ''f'']
      else if c = CHR 0x0A then [CHR 0x5C, CHR ''n'']
      else if c = CHR 0x0D then [CHR 0x5C, CHR ''r'']
      else if c = CHR 0x09 then [CHR 0x5C, CHR ''t'']
      else if (of_char c :: nat) < 32
        then [CHR 0x5C, CHR ''u'', CHR ''0'', CHR ''0'',
              hex_lower ((of_char c :: nat) div 16), hex_lower ((of_char c :: nat) mod 16)]
      else [c])"

definition quote :: "string \<Rightarrow> string" where
  "quote s = CHR 0x22 # concat (map escape_char s) @ [CHR 0x22]"

fun join :: "string list \<Rightarrow> string" where
  "join [] = []"
| "join [x] = x"
| "join (x # y # zs) = x @ '','' @ join (y # zs)"

text \<open>A number that is not finite is written \<open>null\<close>.\<close>

definition number_text :: "js_number \<Rightarrow> string" where
  "number_text x = (case x of Finite q \<Rightarrow> Number_toString x | _ \<Rightarrow> ''null'')"

fun JSON_stringify :: "json \<Rightarrow> string" where
  "JSON_stringify JNull = ''null''"
| "JSON_stringify (JBool b) = (if b then ''true'' else ''false'')"
| "JSON_stringify (JNum x) = number_text x"
| "JSON_stringify (JStr s) = quote s"
| "JSON_stringify (JArr xs) = ''['' @ join (map JSON_stringify xs) @ '']''"
| "JSON_stringify (JObj m) =
     ''{'' @ join (map (\<lambda>kv. quote (fst kv) @ '':'' @ JSON_stringify (snd kv)) m) @ ''}''"

subsection \<open>\<open>JSON.parse\<close>\<close>

definition json_ws :: "char \<Rightarrow> bool" where
  "json_ws c = (c \<in> set [CHR 0x20, CHR 0x09, CHR 0x0A, CHR 0x0D])"

definition skip_ws :: "string \<Rightarrow> string" where
  "skip_ws s = dropWhile json_ws s"

text \<open>
  A string is read as a list of items, a byte or the code unit of a \<open>\u\<close> escape; two
  escapes that are a high and a low surrogate make one code point, written in UTF-8.
\<close>

datatype item = Raw char | Unit nat

fun decode_items :: "item list \<Rightarrow> string" where
  "decode_items [] = []"
| "decode_items (Raw c # xs) = c # decode_items xs"
| "decode_items (Unit h # Unit l # xs) =
     (if 55296 \<le> h \<and> h < 56320 \<and> 56320 \<le> l \<and> l < 57344
      then utf8 (65536 + (h - 55296) * 1024 + (l - 56320)) @ decode_items xs
      else utf8 h @ decode_items (Unit l # xs))"
| "decode_items (Unit u # xs) = utf8 u @ decode_items xs"

definition hex_val :: "char \<Rightarrow> nat option" where
  "hex_val c =
     map_of [(CHR ''0'', 0), (CHR ''1'', 1), (CHR ''2'', 2), (CHR ''3'', 3), (CHR ''4'', 4),
             (CHR ''5'', 5), (CHR ''6'', 6), (CHR ''7'', 7), (CHR ''8'', 8), (CHR ''9'', 9),
             (CHR ''a'', 10), (CHR ''b'', 11), (CHR ''c'', 12), (CHR ''d'', 13), (CHR ''e'', 14),
             (CHR ''f'', 15), (CHR ''A'', 10), (CHR ''B'', 11), (CHR ''C'', 12), (CHR ''D'', 13),
             (CHR ''E'', 14), (CHR ''F'', 15)] c"

definition hex4 :: "string \<Rightarrow> nat option" where
  "hex4 s =
     (case map hex_val (take 4 s) of
        [Some a, Some b, Some c, Some d] \<Rightarrow> Some (((a * 16 + b) * 16 + c) * 16 + d)
      | _ \<Rightarrow> None)"

definition simple_escape :: "char \<Rightarrow> char option" where
  "simple_escape c =
     map_of [(CHR 0x22, CHR 0x22), (CHR 0x5C, CHR 0x5C), (CHR ''/'', CHR ''/''), (CHR ''b'', CHR 0x08),
             (CHR ''f'', CHR 0x0C), (CHR ''n'', CHR 0x0A), (CHR ''r'', CHR 0x0D), (CHR ''t'', CHR 0x09)] c"

definition add_item :: "item \<Rightarrow> (item list \<times> string) option \<Rightarrow> (item list \<times> string) option" where
  "add_item x r = map_option (\<lambda>(xs, rest). (x # xs, rest)) r"

text \<open>The items of a string up to its closing quote, and what follows the quote.\<close>

fun string_items :: "string \<Rightarrow> (item list \<times> string) option" where
  "string_items [] = None"
| "string_items (c # s) =
     (if c = CHR 0x22 then Some ([], s)
      else if c = CHR 0x5C then
        (case s of
           [] \<Rightarrow> None
         | e # t \<Rightarrow>
             if e = CHR ''u'' then
               (case hex4 t of None \<Rightarrow> None | Some u \<Rightarrow> add_item (Unit u) (string_items (drop 4 t)))
             else
               (case simple_escape e of None \<Rightarrow> None | Some x \<Rightarrow> add_item (Raw x) (string_items t)))
      else if (of_char c :: nat) < 32 then None
      else add_item (Raw c) (string_items s))"

text \<open>
  A number: an optional minus, \<open>0\<close> or digits that do not start with \<open>0\<close>, an optional
  fraction and an optional exponent, each with at least one digit. The parts are read one
  after the other; \<open>ds\<close> are the digits read so far and \<open>k\<close> of them are after the point.
\<close>

definition decimal_value :: "string \<Rightarrow> int \<Rightarrow> rat" where
  "decimal_value ds e = of_nat (nat_of_digits ds) * pow10 e"

definition exponent_digits_json :: "string \<Rightarrow> nat \<Rightarrow> int \<Rightarrow> string \<Rightarrow> (rat \<times> string) option" where
  "exponent_digits_json ds k sign s =
     (if takeWhile is_digit s = [] then None
      else Some (decimal_value ds (sign * int (nat_of_digits (takeWhile is_digit s)) - int k),
                 dropWhile is_digit s))"

definition exponent_json :: "string \<Rightarrow> nat \<Rightarrow> string \<Rightarrow> (rat \<times> string) option" where
  "exponent_json ds k s =
     (case s of
        [] \<Rightarrow> Some (decimal_value ds (- int k), s)
      | c # t \<Rightarrow>
          if c = CHR ''e'' \<or> c = CHR ''E'' then
            (case t of
               [] \<Rightarrow> None
             | d # u \<Rightarrow>
                 if d = CHR ''+'' then exponent_digits_json ds k 1 u
                 else if d = CHR ''-'' then exponent_digits_json ds k (- 1) u
                 else exponent_digits_json ds k 1 t)
          else Some (decimal_value ds (- int k), s))"

definition fraction_json :: "string \<Rightarrow> string \<Rightarrow> (rat \<times> string) option" where
  "fraction_json ip s =
     (case s of
        [] \<Rightarrow> exponent_json ip 0 s
      | c # t \<Rightarrow>
          if c = CHR ''.'' then
            (if takeWhile is_digit t = [] then None
             else exponent_json (ip @ takeWhile is_digit t) (length (takeWhile is_digit t))
                    (dropWhile is_digit t))
          else exponent_json ip 0 s)"

definition unsigned_json :: "string \<Rightarrow> (rat \<times> string) option" where
  "unsigned_json s =
     (case s of
        [] \<Rightarrow> None
      | c # t \<Rightarrow>
          if c = CHR ''0'' then fraction_json ''0'' t
          else if is_digit c then fraction_json (takeWhile is_digit s) (dropWhile is_digit s)
          else None)"

definition json_number :: "string \<Rightarrow> (js_number \<times> string) option" where
  "json_number s =
     (case s of
        [] \<Rightarrow> None
      | c # t \<Rightarrow>
          if c = CHR ''-'' then map_option (\<lambda>(q, r). (round_double (- q), r)) (unsigned_json t)
          else map_option (\<lambda>(q, r). (round_double q, r)) (unsigned_json s))"

text \<open>
  A property is added to an object as \<open>CreateDataProperty\<close> does and is enumerated as
  \<open>OrdinaryOwnPropertyKeys\<close> does: a key that is there keeps its place and takes the new
  value, an array index goes among the indices in ascending order, any other key goes
  last.
\<close>

definition index_below :: "nat \<Rightarrow> string \<times> json \<Rightarrow> bool" where
  "index_below i kv = (case array_index (fst kv) of None \<Rightarrow> False | Some j \<Rightarrow> j < i)"

definition obj_put :: "string \<Rightarrow> json \<Rightarrow> (string \<times> json) list \<Rightarrow> (string \<times> json) list" where
  "obj_put k v m =
     (if k \<in> set (map fst m) then map (\<lambda>kv. if fst kv = k then (k, v) else kv) m
      else case array_index k of
             None \<Rightarrow> m @ [(k, v)]
           | Some i \<Rightarrow> takeWhile (index_below i) m @ [(k, v)] @ dropWhile (index_below i) m)"

text \<open>
  The parser descends into arrays and objects; its first argument bounds the number of
  nested calls, and \<open>JSON_parse\<close> gives it more than twice the length of the text, beyond
  which the result does not change.
  \<open>parse_elements\<close> reads the elements of an array after its first bracket or a comma,
  \<open>parse_members\<close> the members of an object, adding them to those read so far.
\<close>

fun parse_value :: "nat \<Rightarrow> string \<Rightarrow> (json \<times> string) option"
  and parse_elements :: "nat \<Rightarrow> string \<Rightarrow> (json list \<times> string) option"
  and parse_members :: "nat \<Rightarrow> (string \<times> json) list \<Rightarrow> string \<Rightarrow> ((string \<times> json) list \<times> string) option"
  where
  "parse_value 0 s = None"
| "parse_value (Suc n) s =
     (case skip_ws s of
        [] \<Rightarrow> None
      | c # t \<Rightarrow>
          if c = CHR ''{'' then
            (case skip_ws t of
               [] \<Rightarrow> None
             | d # u \<Rightarrow>
                 if d = CHR ''}'' then Some (JObj [], u)
                 else map_option (\<lambda>(m, r). (JObj m, r)) (parse_members n [] t))
          else if c = CHR ''['' then
            (case skip_ws t of
               [] \<Rightarrow> None
             | d # u \<Rightarrow>
                 if d = CHR '']'' then Some (JArr [], u)
                 else map_option (\<lambda>(xs, r). (JArr xs, r)) (parse_elements n t))
          else if c = CHR 0x22 then
            map_option (\<lambda>(xs, r). (JStr (decode_items xs), r)) (string_items t)
          else if take 4 (c # t) = ''true'' then Some (JBool True, drop 3 t)
          else if take 5 (c # t) = ''false'' then Some (JBool False, drop 4 t)
          else if take 4 (c # t) = ''null'' then Some (JNull, drop 3 t)
          else map_option (\<lambda>(x, r). (JNum x, r)) (json_number (c # t)))"
| "parse_elements 0 s = None"
| "parse_elements (Suc n) s =
     (case parse_value n s of
        None \<Rightarrow> None
      | Some (v, r) \<Rightarrow>
          (case skip_ws r of
             [] \<Rightarrow> None
           | c # t \<Rightarrow>
               if c = CHR '','' then map_option (\<lambda>(vs, r'). (v # vs, r')) (parse_elements n t)
               else if c = CHR '']'' then Some ([v], t)
               else None))"
| "parse_members 0 acc s = None"
| "parse_members (Suc n) acc s =
     (case skip_ws s of
        [] \<Rightarrow> None
      | q # t \<Rightarrow>
          if q \<noteq> CHR 0x22 then None
          else
            (case string_items t of
               None \<Rightarrow> None
             | Some (ks, r) \<Rightarrow>
                 (case skip_ws r of
                    [] \<Rightarrow> None
                  | c # u \<Rightarrow>
                      if c \<noteq> CHR '':'' then None
                      else
                        (case parse_value n u of
                           None \<Rightarrow> None
                         | Some (v, r') \<Rightarrow>
                             (case skip_ws r' of
                                [] \<Rightarrow> None
                              | d # w \<Rightarrow>
                                  if d = CHR '','' then parse_members n (obj_put (decode_items ks) v acc) w
                                  else if d = CHR ''}'' then Some (obj_put (decode_items ks) v acc, w)
                                  else None)))))"

text \<open>\<open>JSON.parse\<close> throws a \<open>SyntaxError\<close> on a text that is not one JSON value.\<close>

definition JSON_parse :: "string \<Rightarrow> js_error + json" where
  "JSON_parse s =
     (case parse_value (Suc (2 * length s)) s of
        None \<Rightarrow> Inl SyntaxError
      | Some (v, r) \<Rightarrow> if skip_ws r = [] then Inr v else Inl SyntaxError)"

section \<open>Recents store\<close>

text \<open>
  \<open>LocalStorage\<close> is the host's key-value store; the recents are one JSON text under one
  key. An operation returns the store it leaves behind, or the error it is rejected
  with; it is rejected before it writes, so the store is then as it was.
\<close>

type_synonym storage = "string \<Rightarrow> string option"

definition RECENTS_KEY :: string where
  "RECENTS_KEY = ''recent-tickers''"

definition MAX_RECENTS :: nat where
  "MAX_RECENTS = 10"

text \<open>
  \<open>const stored = await LocalStorage.getItem<string>(RECENTS_KEY);
  const recents: RecentTicker[] = stored ? JSON.parse(stored) : [];\<close>
  (the first two lines of \<open>addToRecents\<close>, of \<open>removeRecent\<close> and of the loader of
  \<open>RecentStocks\<close>). The empty string is falsy.
\<close>

definition stored_recents :: "storage \<Rightarrow> js_error + json" where
  "stored_recents st =
     (case st RECENTS_KEY of
        None \<Rightarrow> Inr (JArr [])
      | Some stored \<Rightarrow> if stored = [] then Inr (JArr []) else JSON_parse stored)"

text \<open>\<open>(r) => r.symbol !== symbol\<close>\<close>

definition other_symbol :: "string \<Rightarrow> json \<Rightarrow> js_error + bool" where
  "other_symbol symb r =
     (case get_prop r ''symbol'' of
        Inl e \<Rightarrow> Inl e
      | Inr s \<Rightarrow> Inr (s \<noteq> Some (JStr symb)))"

text \<open>\<open>recents.filter(...)\<close>: only an array has the method.\<close>

definition without_symbol :: "string \<Rightarrow> json \<Rightarrow> js_error + json list" where
  "without_symbol symb recents =
     (case recents of
        JArr rs \<Rightarrow> js_filter (other_symbol symb) rs
      | _ \<Rightarrow> Inl TypeError)"

text \<open>\<open>{ symbol, name, timestamp: Date.now() }\<close>, with the time read from the clock.\<close>

definition new_entry :: "string \<Rightarrow> string \<Rightarrow> int \<Rightarrow> json" where
  "new_entry symb nam now =
     JObj [(''symbol'', JStr symb), (''name'', JStr nam), (''timestamp'', JNum (Finite (of_int now)))]"

text \<open>
  \<open>addToRecents\<close> (the same function in \<open>zacks-rank.tsx\<close> and \<open>quick-lookup.tsx\<close>):
  \<open>unshift\<close> puts the new entry first, \<open>slice(0, MAX_RECENTS)\<close> keeps the first ten.
\<close>

definition addToRecents :: "string \<Rightarrow> string \<Rightarrow> int \<Rightarrow> storage \<Rightarrow> js_error + storage" where
  "addToRecents symb nam now st =
     (case stored_recents st of
        Inl e \<Rightarrow> Inl e
      | Inr recents \<Rightarrow>
          (case without_symbol symb recents of
             Inl e \<Rightarrow> Inl e
           | Inr filtered \<Rightarrow>
               Inr (st(RECENTS_KEY \<mapsto>
                 JSON_stringify (JArr (take MAX_RECENTS (new_entry symb nam now # filtered)))))))"

text \<open>\<open>removeRecent\<close>, up to its write (a toast and a reload of the view follow).\<close>

definition removeRecent :: "string \<Rightarrow> storage \<Rightarrow> js_error + storage" where
  "removeRecent symb st =
     (case stored_recents st of
        Inl e \<Rightarrow> Inl e
      | Inr current \<Rightarrow>
          (case without_symbol symb current of
             Inl e \<Rightarrow> Inl e
           | Inr filtered \<Rightarrow> Inr (st(RECENTS_KEY \<mapsto> JSON_stringify (JArr filtered)))))"

text \<open>\<open>clearRecents\<close>: \<open>LocalStorage.removeItem(RECENTS_KEY)\<close>.\<close>

definition clearRecents :: "storage \<Rightarrow> js_error + storage" where
  "clearRecents st = Inr (st(RECENTS_KEY := None))"

section \<open>Notions used to state the properties of the store\<close>

text \<open>
  The entries of the list as the program's types have them (\<open>RecentTicker\<close> of
  \<open>types.ts\<close>, which is not among the sources; the fields are those the code reads and
  writes): a symbol, a name and a time in milliseconds.
\<close>

record RecentTicker =
  symbol :: string
  name :: string
  timestamp :: int

text \<open>The JSON value of an entry, and the store holding a list of entries.\<close>

definition recent_json :: "RecentTicker \<Rightarrow> json" where
  "recent_json r =
     new_entry (RecentTicker.symbol r) (RecentTicker.name r) (timestamp r)"

definition holds :: "storage \<Rightarrow> RecentTicker list \<Rightarrow> bool" where
  "holds st rs = (stored_recents st = Inr (JArr (map recent_json rs)))"

text \<open>
  The times \<open>Date.now()\<close> can give: a time value is at most 8.64e15 milliseconds from
  the epoch.
\<close>

definition valid_time :: "int \<Rightarrow> bool" where
  "valid_time t = (\<bar>t\<bar> \<le> 8640000000000000)"

definition valid_times :: "RecentTicker list \<Rightarrow> bool" where
  "valid_times rs = list_all (\<lambda>r. valid_time (timestamp r)) rs"

text \<open>What the specification says \<open>upsert\<close> and \<open>remove\<close> do to the list.\<close>

definition others :: "string \<Rightarrow> RecentTicker list \<Rightarrow> RecentTicker list" where
  "others s rs = filter (\<lambda>r. RecentTicker.symbol r \<noteq> s) rs"

definition upsert :: "string \<Rightarrow> string \<Rightarrow> int \<Rightarrow> RecentTicker list \<Rightarrow> RecentTicker list" where
  "upsert s n t rs =
     take 10 (\<lparr>RecentTicker.symbol = s, RecentTicker.name = n, timestamp = t\<rparr> # others s rs)"

text \<open>Sequences of operations on the store; the time of an upsert is what its clock reads.\<close>

datatype operation = Upsert string string int | Remove string | Clear

fun apply_operation :: "operation \<Rightarrow> storage \<Rightarrow> js_error + storage" where
  "apply_operation (Upsert s n t) st = addToRecents s n t st"
| "apply_operation (Remove s) st = removeRecent s st"
| "apply_operation Clear st = clearRecents st"

fun run :: "operation list \<Rightarrow> storage \<Rightarrow> js_error + storage" where
  "run [] st = Inr st"
| "run (x # xs) st = (case apply_operation x st of Inl e \<Rightarrow> Inl e | Inr st' \<Rightarrow> run xs st')"

fun valid_operation :: "operation \<Rightarrow> bool" where
  "valid_operation (Upsert s n t) = valid_time t"
| "valid_operation x = True"

text \<open>
  How a string is read back: each character of the text, as the item the parser makes of
  its escape. An integer as JSON text.
\<close>

definition item_of :: "char \<Rightarrow> item" where
  "item_of c =
     (if (of_char c :: nat) < 32 \<and> c \<notin> set [CHR 0x08, CHR 0x0C, CHR 0x0A, CHR 0x0D, CHR 0x09]
      then Unit (of_char c) else Raw c)"

definition int_text :: "int \<Rightarrow> string" where
  "int_text t = (if t < 0 then ''-'' else []) @ digits_of (nat \<bar>t\<bar>)"

text \<open>A character that cannot continue a JSON number.\<close>

definition ends_number :: "char \<Rightarrow> bool" where
  "ends_number c = (c \<notin> set ''0123456789.eE'')"

text \<open>An upsert given as the triple of its symbol, name and time, and the entry it makes.\<close>

definition entry :: "string \<times> string \<times> int \<Rightarrow> RecentTicker" where
  "entry e = \<lparr>RecentTicker.symbol = fst e, RecentTicker.name = fst (snd e), timestamp = snd (snd e)\<rparr>"

definition upsert_of :: "string \<times> string \<times> int \<Rightarrow> operation" where
  "upsert_of e = Upsert (fst e) (fst (snd e)) (snd (snd e))"

section \<open>Properties of the search client\<close>

lemma request_failed_search: "request_failed answer \<Longrightarrow> \<exists>e. search_response answer = Inl e"
  by (auto simp: request_failed_def search_response_def split: sum.splits)

text \<open>
  C7. For the empty query \<open>searchTickers\<close> returns the empty sequence and does nothing to
  the outside: no request is sent, whatever the network would answer.
\<close>

theorem searchTickers_empty_query: "searchTickers net [] = ([], Inr [])"
  by (simp add: searchTickers_def)

text \<open>
  C5. \<open>searchTickers\<close> never throws: for every network and every query it returns a
  sequence. When the request is rejected, the status is not a 2xx one or the body does not
  parse, the sequence is empty, as it is for a response without quotes.
\<close>

theorem searchTickers_fail_soft:
  "(\<exists>results. snd (searchTickers net query) = Inr results) \<and>
   (request_failed (net (search_request query)) \<longrightarrow> snd (searchTickers net query) = Inr [])"
proof
  show "\<exists>results. snd (searchTickers net query) = Inr results"
    by (simp add: searchTickers_def split: sum.splits)
next
  show "request_failed (net (search_request query)) \<longrightarrow> snd (searchTickers net query) = Inr []"
  proof
    assume "request_failed (net (search_request query))"
    then obtain e where "search_response (net (search_request query)) = Inl e"
      using request_failed_search by blast
    then show "snd (searchTickers net query) = Inr []"
      by (simp add: searchTickers_def)
  qed
qed

text \<open>
  Witness: a rejected request, a 503 and a body that is not JSON all give the empty
  sequence, which is also what a response with no quotes gives.
\<close>

theorem searchTickers_fail_soft_witness:
  "request_failed ((\<lambda>r. Inl TypeError) (search_request ''apple'')) \<and>
   snd (searchTickers (\<lambda>r. Inl TypeError) ''apple'') = Inr [] \<and>
   request_failed ((\<lambda>r. Inr \<lparr>status = 503, body_json = Inr JNull\<rparr>) (search_request ''apple'')) \<and>
   snd (searchTickers (\<lambda>r. Inr \<lparr>status = 503, body_json = Inr JNull\<rparr>) ''apple'') = Inr [] \<and>
   request_failed ((\<lambda>r. Inr \<lparr>status = 200, body_json = Inl SyntaxError\<rparr>) (search_request ''apple'')) \<and>
   snd (searchTickers (\<lambda>r. Inr \<lparr>status = 200, body_json = Inl SyntaxError\<rparr>) ''apple'') = Inr [] \<and>
   snd (searchTickers (\<lambda>r. Inr \<lparr>status = 200, body_json = Inr (JObj [(''quotes'', JArr [])])\<rparr>) ''apple'') = Inr []"
proof -
  have f1: "request_failed ((\<lambda>r. Inl TypeError) (search_request ''apple''))"
    by (simp add: request_failed_def)
  have f2: "request_failed ((\<lambda>r. Inr \<lparr>status = 503, body_json = Inr JNull\<rparr>) (search_request ''apple''))"
    by (simp add: request_failed_def ok_def)
  have f3: "request_failed ((\<lambda>r. Inr \<lparr>status = 200, body_json = Inl SyntaxError\<rparr>) (search_request ''apple''))"
    by (simp add: request_failed_def ok_def)
  have e: "snd (searchTickers (\<lambda>r. Inr \<lparr>status = 200, body_json = Inr (JObj [(''quotes'', JArr [])])\<rparr>) ''apple'') = Inr []"
    by (simp add: searchTickers_def search_response_def ok_def map_quotes_def)
  from f1 f2 f3 e
    searchTickers_fail_soft [of "\<lambda>r. Inl TypeError" "''apple''"]
    searchTickers_fail_soft [of "\<lambda>r. Inr \<lparr>status = 503, body_json = Inr JNull\<rparr>" "''apple''"]
    searchTickers_fail_soft [of "\<lambda>r. Inr \<lparr>status = 200, body_json = Inl SyntaxError\<rparr>" "''apple''"]
  show ?thesis by blast
qed

lemma quote_json_filter:
  "list_all2 quote_json qs js \<Longrightarrow>
   \<exists>ks. js_filter is_stock_or_etf js = Inr ks \<and> list_all2 quote_json (filter kept qs) ks"
proof (induction qs js rule: list_all2_induct)
  case Nil
  then show ?case by simp
next
  case (Cons q qs j js)
  then obtain ks where ks: "js_filter is_stock_or_etf js = Inr ks"
    "list_all2 quote_json (filter kept qs) ks" by blast
  from Cons.hyps(1) obtain m where j: "j = JObj m"
    by (cases j) simp_all
  with Cons.hyps(1) have t: "is_stock_or_etf j = Inr (kept q)"
    by (auto simp: is_stock_or_etf_def kept_def)
  show ?case using ks t Cons.hyps(1) by simp
qed

lemma truthy_JStr_option: "truthy (map_option JStr s) = given s"
  by (cases s) (simp_all add: given_def)

lemma quote_json_to_result:
  assumes "quote_json q j"
  shows "to_result j = Inr (result_of name_if_given q)"
proof -
  from assms obtain m where j: "j = JObj m"
    by (cases j) simp_all
  have "js_or (js_or (map_option JStr (longname q)) (map_option JStr (shortname q)))
          (Some (JStr (YahooQuote.symbol q))) = Some (JStr (name_if_given q))"
    by (cases "longname q"; cases "shortname q")
       (simp_all add: js_or_def name_if_given_def given_def)
  with assms j show ?thesis
    by (simp add: to_result_def result_of_def)
qed

lemma quote_json_map:
  "list_all2 quote_json qs js \<Longrightarrow> js_map to_result js = Inr (map (result_of name_if_given) qs)"
  by (induction qs js rule: list_all2_induct) (simp_all add: quote_json_to_result)

text \<open>
  C6, as stated: on a well-formed response the result is, in the order of the response,
  the entries of type EQUITY or ETF, each with its symbol and with the long name if
  present, else the short name, else the symbol. It fails for an entry whose long name is
  present and is the empty string: \<open>||\<close> goes on to the short name.
\<close>

theorem searchTickers_name_counterexample:
  "search_data
     [\<lparr>YahooQuote.symbol = ''X'', shortname = Some ''Short'', longname = Some [],
       quoteType = ''EQUITY'', exchange = ''NYQ''\<rparr>]
     (JObj [(''quotes'', JArr [JObj [(''symbol'', JStr ''X''), (''shortname'', JStr ''Short''),
        (''longname'', JStr []), (''quoteType'', JStr ''EQUITY''), (''exchange'', JStr ''NYQ'')]])]) \<and>
   snd (searchTickers
     (\<lambda>r. Inr \<lparr>status = 200, body_json = Inr (JObj [(''quotes'', JArr [JObj [(''symbol'', JStr ''X''),
        (''shortname'', JStr ''Short''), (''longname'', JStr []), (''quoteType'', JStr ''EQUITY''),
        (''exchange'', JStr ''NYQ'')]])])\<rparr>) ''x'')
   \<noteq> Inr (map (result_of name_if_present) (filter kept
     [\<lparr>YahooQuote.symbol = ''X'', shortname = Some ''Short'', longname = Some [],
       quoteType = ''EQUITY'', exchange = ''NYQ''\<rparr>])) \<and>
   snd (searchTickers
     (\<lambda>r. Inr \<lparr>status = 200, body_json = Inr (JObj [(''quotes'', JArr [JObj [(''symbol'', JStr ''X''),
        (''shortname'', JStr ''Short''), (''longname'', JStr []), (''quoteType'', JStr ''EQUITY''),
        (''exchange'', JStr ''NYQ'')]])])\<rparr>) ''x'')
   = Inr [\<lparr>TickerSearchResult.symbol = Some (JStr ''X''), name = Some (JStr ''Short'')\<rparr>]"
  by (simp add: search_data_def searchTickers_def search_response_def ok_def map_quotes_def
      is_stock_or_etf_def to_result_def js_or_def result_of_def name_if_present_def kept_def)

text \<open>
  C6, amended: on a well-formed response the result is, in the order of the response, the
  entries of type EQUITY or ETF, each with its symbol and with the long name if present and
  not empty, else the short name if present and not empty, else the symbol.
\<close>

theorem searchTickers_well_formed:
  assumes "query \<noteq> []"
    and "net (search_request query) = Inr response"
    and "ok response"
    and "body_json response = Inr data"
    and "search_data qs data"
  shows "searchTickers net query =
           ([Fetch (search_request query)], Inr (map (result_of name_if_given) (filter kept qs)))"
proof -
  from assms(5) obtain js where js: "get_prop data ''quotes'' = Inr (Some (JArr js))"
    "list_all2 quote_json qs js"
    by (auto simp: search_data_def split: sum.splits option.splits json.splits)
  from quote_json_filter [OF js(2)] obtain ks where ks: "js_filter is_stock_or_etf js = Inr ks"
    "list_all2 quote_json (filter kept qs) ks" by blast
  have "map_quotes data = Inr (map (result_of name_if_given) (filter kept qs))"
    using js(1) ks(1) quote_json_map [OF ks(2)] by (simp add: map_quotes_def)
  with assms(1-4) show ?thesis
    by (simp add: searchTickers_def search_response_def)
qed

theorem searchTickers_well_formed_witness:
  "searchTickers
     (\<lambda>r. Inr \<lparr>status = 200, body_json = Inr (JObj [(''quotes'', JArr [
        JObj [(''symbol'', JStr ''AAPL''), (''shortname'', JStr ''Apple''), (''longname'', JStr ''Apple Inc.''),
              (''quoteType'', JStr ''EQUITY''), (''exchange'', JStr ''NMS'')],
        JObj [(''symbol'', JStr ''AAPL=F''), (''shortname'', JStr ''Future''),
              (''quoteType'', JStr ''FUTURE''), (''exchange'', JStr ''CME'')],
        JObj [(''symbol'', JStr ''APLY''), (''shortname'', JStr ''Yield ETF''),
              (''quoteType'', JStr ''ETF''), (''exchange'', JStr ''PCX'')],
        JObj [(''symbol'', JStr ''APL''), (''quoteType'', JStr ''EQUITY''), (''exchange'', JStr ''ASX'')]])])\<rparr>)
     ''apple''
   = ([Fetch (search_request ''apple'')],
      Inr [\<lparr>TickerSearchResult.symbol = Some (JStr ''AAPL''), name = Some (JStr ''Apple Inc.'')\<rparr>,
           \<lparr>TickerSearchResult.symbol = Some (JStr ''APLY''), name = Some (JStr ''Yield ETF'')\<rparr>,
           \<lparr>TickerSearchResult.symbol = Some (JStr ''APL''), name = Some (JStr ''APL'')\<rparr>])"
proof -
  let ?data = "JObj [(''quotes'', JArr [
        JObj [(''symbol'', JStr ''AAPL''), (''shortname'', JStr ''Apple''), (''longname'', JStr ''Apple Inc.''),
              (''quoteType'', JStr ''EQUITY''), (''exchange'', JStr ''NMS'')],
        JObj [(''symbol'', JStr ''AAPL=F''), (''shortname'', JStr ''Future''),
              (''quoteType'', JStr ''FUTURE''), (''exchange'', JStr ''CME'')],
        JObj [(''symbol'', JStr ''APLY''), (''shortname'', JStr ''Yield ETF''),
              (''quoteType'', JStr ''ETF''), (''exchange'', JStr ''PCX'')],
        JObj [(''symbol'', JStr ''APL''), (''quoteType'', JStr ''EQUITY''), (''exchange'', JStr ''ASX'')]])]"
  let ?response = "\<lparr>status = 200, body_json = Inr ?data\<rparr>"
  let ?qs = "[\<lparr>YahooQuote.symbol = ''AAPL'', shortname = Some ''Apple'', longname = Some ''Apple Inc.'',
                quoteType = ''EQUITY'', exchange = ''NMS''\<rparr>,
              \<lparr>YahooQuote.symbol = ''AAPL=F'', shortname = Some ''Future'', longname = None,
                quoteType = ''FUTURE'', exchange = ''CME''\<rparr>,
              \<lparr>YahooQuote.symbol = ''APLY'', shortname = Some ''Yield ETF'', longname = None,
                quoteType = ''ETF'', exchange = ''PCX''\<rparr>,
              \<lparr>YahooQuote.symbol = ''APL'', shortname = None, longname = None,
                quoteType = ''EQUITY'', exchange = ''ASX''\<rparr>]"
  have 1: "''apple'' \<noteq> []" by simp
  have 2: "(\<lambda>r. Inr ?response) (search_request ''apple'') = Inr ?response" by simp
  have 3: "ok ?response" by (simp add: ok_def)
  have 4: "body_json ?response = Inr ?data" by simp
  have 5: "search_data ?qs ?data" by (simp add: search_data_def)
  have 6: "map (result_of name_if_given) (filter kept ?qs) =
      [\<lparr>TickerSearchResult.symbol = Some (JStr ''AAPL''), name = Some (JStr ''Apple Inc.'')\<rparr>,
       \<lparr>TickerSearchResult.symbol = Some (JStr ''APLY''), name = Some (JStr ''Yield ETF'')\<rparr>,
       \<lparr>TickerSearchResult.symbol = Some (JStr ''APL''), name = Some (JStr ''APL'')\<rparr>]"
    by (simp add: kept_def result_of_def name_if_given_def given_def)
  show ?thesis
    using searchTickers_well_formed [OF 1 2 3 4 5] unfolding 6 .
qed

section \<open>Properties of the quote client\<close>

lemma request_failed_quote: "request_failed answer \<Longrightarrow> \<exists>e. quote_response answer ticker = Inl e"
  by (auto simp: request_failed_def quote_response_def split: sum.splits)

text \<open>
  On ASCII characters \<open>toUpperCase\<close> changes the 26 letters and nothing else.
\<close>

lemma special_upper_ascii: "n < 128 \<Longrightarrow> map_of special_upper n = None"
  by (simp add: special_upper_def)

lemma simple_upper_ascii:
  "n < 128 \<Longrightarrow> upper_in simple_upper n = (if 97 \<le> n \<and> n \<le> 122 then n - 32 else n)"
  by (simp add: simple_upper_def)

lemma upper_case_ascii:
  "n < 128 \<Longrightarrow> upper_case n = [if 97 \<le> n \<and> n \<le> 122 then n - 32 else n]"
  by (simp add: upper_case_def special_upper_ascii simple_upper_ascii)

lemma letter_codes:
  assumes "97 \<le> n" and "n \<le> (122::nat)"
  shows "char_of n \<in> set ''abcdefghijklmnopqrstuvwxyz''"
proof -
  from assms have "n = 97 \<or> n = 98 \<or> n = 99 \<or> n = 100 \<or> n = 101 \<or> n = 102 \<or> n = 103 \<or> n = 104 \<or>
      n = 105 \<or> n = 106 \<or> n = 107 \<or> n = 108 \<or> n = 109 \<or> n = 110 \<or> n = 111 \<or> n = 112 \<or> n = 113 \<or>
      n = 114 \<or> n = 115 \<or> n = 116 \<or> n = 117 \<or> n = 118 \<or> n = 119 \<or> n = 120 \<or> n = 121 \<or> n = 122"
    by arith
  then show ?thesis
    by (elim disjE; simp add: char_of_def bit_Suc_0_iff)
qed

lemma upper_char_letter:
  assumes "c \<in> set ''abcdefghijklmnopqrstuvwxyz''"
  shows "97 \<le> (of_char c :: nat) \<and> (of_char c :: nat) \<le> 122 \<and>
         upper_char c = char_of ((of_char c :: nat) - 32)"
  using assms
  by (simp only: set_simps insert_iff empty_iff)
     (elim disjE; simp add: upper_char_def char_of_def bit_Suc_0_iff)

lemma upper_char_other:
  assumes "c \<notin> set ''abcdefghijklmnopqrstuvwxyz''"
  shows "\<not> (97 \<le> (of_char c :: nat) \<and> (of_char c :: nat) \<le> 122) \<and> upper_char c = c"
proof
  show "\<not> (97 \<le> (of_char c :: nat) \<and> (of_char c :: nat) \<le> 122)"
  proof
    assume "97 \<le> (of_char c :: nat) \<and> (of_char c :: nat) \<le> 122"
    then have "char_of (of_char c :: nat) \<in> set ''abcdefghijklmnopqrstuvwxyz''"
      using letter_codes by blast
    with assms show False by (simp only: char_of_char)
  qed
  from assms have "map_of (zip ''abcdefghijklmnopqrstuvwxyz'' ''ABCDEFGHIJKLMNOPQRSTUVWXYZ'') c = None"
    by (simp only: map_of_eq_None_iff) simp
  then show "upper_char c = c" by (simp add: upper_char_def)
qed

lemma upper_character_ascii:
  assumes "ascii b"
  shows "upper_character [b] = [upper_char b]"
proof -
  define n :: nat where "n = of_char b"
  from assms have n: "n < 128" by (simp add: ascii_def n_def)
  have b: "char_of n = b" by (simp add: n_def)
  have cp: "code_point [b] = n" using n by (simp add: code_point_def n_def)
  have wf: "utf8 n = [b]" using n b by (simp add: utf8_def)
  define m where "m = (if 97 \<le> n \<and> n \<le> 122 then n - 32 else n)"
  have m: "m < 128" using n by (simp add: m_def less_imp_diff_less)
  have "char_of m = upper_char b"
  proof (cases "b \<in> set ''abcdefghijklmnopqrstuvwxyz''")
    case True
    from upper_char_letter [OF this] show ?thesis by (simp add: m_def n_def)
  next
    case False
    from upper_char_other [OF this] show ?thesis by (auto simp: m_def n_def)
  qed
  with m have "utf8 m = [upper_char b]" by (simp add: utf8_def)
  moreover have "upper_case n = [m]" using n by (simp add: upper_case_ascii m_def)
  ultimately show ?thesis
    by (simp add: upper_character_def cp wf)
qed

lemma toUpperCase_ascii: "list_all ascii s \<Longrightarrow> toUpperCase s = map upper_char s"
proof (induction s)
  case Nil
  show ?case by (simp add: toUpperCase_def)
next
  case (Cons b s)
  then have "ascii b" and "toUpperCase s = map upper_char s" by simp_all
  moreover from \<open>ascii b\<close> have "characters (b # s) = [b] # characters s" by (simp add: ascii_def)
  ultimately show ?case by (simp add: toUpperCase_def upper_character_ascii)
qed

text \<open>Beyond ASCII: \<open>soci\<close>, e with acute accent, \<open>t\<close>, e with acute accent.\<close>

lemma toUpperCase_accent:
  "toUpperCase [CHR ''s'', CHR ''o'', CHR ''c'', CHR ''i'', CHR 0xC3, CHR 0xA9, CHR ''t'', CHR 0xC3, CHR 0xA9] =
     [CHR ''S'', CHR ''O'', CHR ''C'', CHR ''I'', CHR 0xC3, CHR 0x89, CHR ''T'', CHR 0xC3, CHR 0x89]"
  by (simp add: toUpperCase_def upper_character_def code_point_def utf8_def upper_case_def
      special_upper_def simple_upper_def char_of_def bit_Suc_0_iff)

text \<open>
  C4. For every network and ticker, \<open>getZacksData\<close> sends one request, whose address ends
  in \<open>ticker.toUpperCase()\<close>, percent-encoded, and never throws. For a ticker of ASCII
  characters that is the ticker with each of the letters \<open>a\<close> to \<open>z\<close> replaced by its
  capital. When the response is a dictionary it returns the record stored under the
  upper-cased ticker, and \<open>null\<close> when the dictionary has no such key; a rejected request,
  a status that is not 2xx and a body that does not parse give \<open>null\<close> too.
\<close>

theorem getZacksData_record_or_null:
  "requests_of (fst (getZacksData net ticker)) =
     [\<lparr>url = ZACKS_QUOTE_BASE @ ''?t='' @ encodeURIComponent (toUpperCase ticker), headers = []\<rparr>] \<and>
   (list_all ascii ticker \<longrightarrow> toUpperCase ticker = map upper_char ticker) \<and>
   (\<exists>result. snd (getZacksData net ticker) = Inr result) \<and>
   (request_failed (net (quote_request ticker)) \<longrightarrow> snd (getZacksData net ticker) = Inr JNull) \<and>
   (\<forall>response dict. net (quote_request ticker) = Inr response \<and> ok response \<and>
        body_json response = Inr (JObj dict) \<longrightarrow>
      (map_of dict (toUpperCase ticker) = None \<longrightarrow> snd (getZacksData net ticker) = Inr JNull) \<and>
      (\<forall>record. map_of dict (toUpperCase ticker) = Some (JObj record) \<longrightarrow>
         snd (getZacksData net ticker) = Inr (JObj record)))"
proof (intro conjI)
  show "requests_of (fst (getZacksData net ticker)) =
     [\<lparr>url = ZACKS_QUOTE_BASE @ ''?t='' @ encodeURIComponent (toUpperCase ticker), headers = []\<rparr>]"
    by (simp add: getZacksData_def quote_request_def split: sum.splits)
  show "list_all ascii ticker \<longrightarrow> toUpperCase ticker = map upper_char ticker"
    by (simp add: toUpperCase_ascii)
  show "\<exists>result. snd (getZacksData net ticker) = Inr result"
    by (simp add: getZacksData_def split: sum.splits)
  show "request_failed (net (quote_request ticker)) \<longrightarrow> snd (getZacksData net ticker) = Inr JNull"
  proof
    assume "request_failed (net (quote_request ticker))"
    then obtain e where "quote_response (net (quote_request ticker)) ticker = Inl e"
      using request_failed_quote by blast
    then show "snd (getZacksData net ticker) = Inr JNull"
      by (simp add: getZacksData_def)
  qed
  show "\<forall>response dict. net (quote_request ticker) = Inr response \<and> ok response \<and>
        body_json response = Inr (JObj dict) \<longrightarrow>
      (map_of dict (toUpperCase ticker) = None \<longrightarrow> snd (getZacksData net ticker) = Inr JNull) \<and>
      (\<forall>record. map_of dict (toUpperCase ticker) = Some (JObj record) \<longrightarrow>
         snd (getZacksData net ticker) = Inr (JObj record))"
    by (simp add: getZacksData_def quote_response_def ticker_data_def)
qed

text \<open>
  Witness: the ticker \<open>aapl\<close> is asked for as \<open>AAPL\<close>; the record under \<open>AAPL\<close> is
  returned, a dictionary without that key gives \<open>null\<close>, and so does a 404. The ticker
  \<open>soci\<close>, e with acute accent, \<open>t\<close>, e with acute accent is asked for with capital
  letters throughout, as \<open>SOCI%C3%89T%C3%89\<close>.
\<close>

theorem getZacksData_record_or_null_witness:
  "list_all ascii ''aapl'' \<and> toUpperCase ''aapl'' = ''AAPL'' \<and>
   snd (getZacksData (\<lambda>r. Inr \<lparr>status = 200, body_json = Inr (JObj [(''AAPL'', JObj [(''name'', JStr ''Apple Inc.'')])])\<rparr>) ''aapl'')
     = Inr (JObj [(''name'', JStr ''Apple Inc.'')]) \<and>
   snd (getZacksData (\<lambda>r. Inr \<lparr>status = 200, body_json = Inr (JObj [(''MSFT'', JObj [(''name'', JStr ''Microsoft'')])])\<rparr>) ''aapl'')
     = Inr JNull \<and>
   request_failed ((\<lambda>r. Inr \<lparr>status = 404, body_json = Inr (JObj [])\<rparr>) (quote_request ''aapl'')) \<and>
   snd (getZacksData (\<lambda>r. Inr \<lparr>status = 404, body_json = Inr (JObj [])\<rparr>) ''aapl'') = Inr JNull \<and>
   requests_of (fst (getZacksData (\<lambda>r. Inr \<lparr>status = 404, body_json = Inr (JObj [])\<rparr>) ''aapl''))
     = [\<lparr>url = ''https://quote-feed.zacks.com/index?t=AAPL'', headers = []\<rparr>] \<and>
   requests_of (fst (getZacksData (\<lambda>r. Inr \<lparr>status = 404, body_json = Inr (JObj [])\<rparr>)
       [CHR ''s'', CHR ''o'', CHR ''c'', CHR ''i'', CHR 0xC3, CHR 0xA9, CHR ''t'', CHR 0xC3, CHR 0xA9]))
     = [\<lparr>url = ''https://quote-feed.zacks.com/index?t=SOCI%C3%89T%C3%89'', headers = []\<rparr>]"
proof -
  let ?found = "\<lparr>status = 200, body_json = Inr (JObj [(''AAPL'', JObj [(''name'', JStr ''Apple Inc.'')])])\<rparr>"
  let ?other = "\<lparr>status = 200, body_json = Inr (JObj [(''MSFT'', JObj [(''name'', JStr ''Microsoft'')])])\<rparr>"
  let ?missing = "\<lparr>status = 404, body_json = Inr (JObj [])\<rparr>"
  let ?accent = "[CHR ''s'', CHR ''o'', CHR ''c'', CHR ''i'', CHR 0xC3, CHR 0xA9, CHR ''t'', CHR 0xC3, CHR 0xA9]"
  have asc: "list_all ascii ''aapl''"
    by (simp add: ascii_def)
  have up: "toUpperCase ''aapl'' = ''AAPL''"
    using getZacksData_record_or_null [of "\<lambda>r. Inr ?found" "''aapl''"] asc
    by (simp add: upper_char_def)
  have enc: "encodeURIComponent ''AAPL'' = ''AAPL''"
    by (simp add: encodeURIComponent_def encode_char_def unreserved_def)
  have enc_accent:
    "encodeURIComponent [CHR ''S'', CHR ''O'', CHR ''C'', CHR ''I'', CHR 0xC3, CHR 0x89, CHR ''T'', CHR 0xC3, CHR 0x89]
       = ''SOCI%C3%89T%C3%89''"
    by (simp add: encodeURIComponent_def encode_char_def unreserved_def hex_char_def)
  have a: "ok ?found" "ok ?other" "\<not> ok ?missing"
    by (simp_all add: ok_def)
  have f: "request_failed ((\<lambda>r. Inr ?missing) (quote_request ''aapl''))"
    using a(3) by (simp add: request_failed_def)
  have 1: "snd (getZacksData (\<lambda>r. Inr ?found) ''aapl'') = Inr (JObj [(''name'', JStr ''Apple Inc.'')])"
    using getZacksData_record_or_null [of "\<lambda>r. Inr ?found" "''aapl''"] a(1) by (simp add: up)
  have 2: "snd (getZacksData (\<lambda>r. Inr ?other) ''aapl'') = Inr JNull"
    using getZacksData_record_or_null [of "\<lambda>r. Inr ?other" "''aapl''"] a(2) by (simp add: up)
  have 3: "snd (getZacksData (\<lambda>r. Inr ?missing) ''aapl'') = Inr JNull"
    using getZacksData_record_or_null [of "\<lambda>r. Inr ?missing" "''aapl''"] f by blast
  have 4: "requests_of (fst (getZacksData (\<lambda>r. Inr ?missing) ''aapl''))
     = [\<lparr>url = ''https://quote-feed.zacks.com/index?t=AAPL'', headers = []\<rparr>]"
    using getZacksData_record_or_null [of "\<lambda>r. Inr ?missing" "''aapl''"]
    by (simp add: up enc ZACKS_QUOTE_BASE_def)
  have 5: "requests_of (fst (getZacksData (\<lambda>r. Inr ?missing) ?accent))
     = [\<lparr>url = ''https://quote-feed.zacks.com/index?t=SOCI%C3%89T%C3%89'', headers = []\<rparr>]"
    using getZacksData_record_or_null [of "\<lambda>r. Inr ?missing" ?accent]
    by (simp only: toUpperCase_accent enc_accent ZACKS_QUOTE_BASE_def) simp
  from asc up 1 2 f 3 4 5 show ?thesis by blast
qed
section \<open>Properties of the formatters\<close>

lemma floor_rat_numeral [simp]: "\<lfloor>numeral a / numeral b :: rat\<rfloor> = numeral a div numeral b"
  by (metis floor_divide_of_int_eq of_int_numeral)

lemma ceiling_rat_numeral [simp]: "\<lceil>numeral a / numeral b :: rat\<rceil> = - ((- numeral a) div numeral b)"
  by (metis ceiling_divide_eq_div of_int_numeral)

lemmas scan_eval =
  parseFloat_def trim_start.simps ws_length_def white_space_1_def white_space_2_def white_space_3_def
  decimal_literal_def unsigned_literal_def unsigned_decimal_def fraction_digits_def after_integer_def
  after_fraction_def exponent_part_def signed_integer_def is_digit_def nat_of_digits_def digit_val_def
  pow10_def negate_def

lemmas round_eval =
  round_double_def ilog2_def bitlen.simps pow2_def round_half_even_def Let_def

lemmas fixed_eval =
  toFixed_def digits_of.simps digit_char_def zeros_def

lemma non_numeric_simps:
  assumes "non_numeric c"
  shows "\<not> is_digit c" "c \<noteq> CHR ''.''" "c \<noteq> CHR ''e''" "c \<noteq> CHR ''E''" "c \<noteq> CHR ''+''" "c \<noteq> CHR ''-''"
  using assms by (auto simp: non_numeric_def is_digit_def)

lemma takeWhile_digit_append:
  "\<not> is_digit c \<Longrightarrow> takeWhile is_digit (s @ c # rest) = takeWhile is_digit s"
  by (induction s) simp_all

lemma dropWhile_digit_append:
  "\<not> is_digit c \<Longrightarrow> dropWhile is_digit (s @ c # rest) = dropWhile is_digit s @ c # rest"
  by (induction s) simp_all

lemma exponent_part_append:
  assumes "non_numeric c"
  shows "exponent_part (s @ c # rest) = exponent_part s"
proof (cases s)
  case Nil
  with assms show ?thesis by (simp add: exponent_part_def non_numeric_simps)
next
  case (Cons a t)
  show ?thesis
  proof (cases t)
    case Nil
    with Cons assms show ?thesis
      by (simp add: exponent_part_def non_numeric_simps signed_integer_def nat_of_digits_def)
  next
    case (Cons d u)
    with \<open>s = a # t\<close> assms show ?thesis
      by (simp add: exponent_part_def non_numeric_simps signed_integer_def takeWhile_digit_append)
  qed
qed

lemma after_integer_append:
  "non_numeric c \<Longrightarrow> after_integer (s @ c # rest) = after_integer s @ c # rest"
  by (simp add: after_integer_def dropWhile_digit_append non_numeric_simps)

lemma fraction_digits_append:
  "non_numeric c \<Longrightarrow> fraction_digits (s @ c # rest) = fraction_digits s"
  by (cases "after_integer s")
     (simp_all add: fraction_digits_def after_integer_append non_numeric_simps takeWhile_digit_append)

lemma after_fraction_append:
  "non_numeric c \<Longrightarrow> after_fraction (s @ c # rest) = after_fraction s @ c # rest"
  by (cases "after_integer s")
     (simp_all add: after_fraction_def after_integer_append non_numeric_simps dropWhile_digit_append)

lemma exponent_part_start: "non_numeric c \<Longrightarrow> exponent_part (c # rest) = 0"
  by (simp add: exponent_part_def non_numeric_simps)

lemma unsigned_decimal_append:
  "non_numeric c \<Longrightarrow> unsigned_decimal (s @ c # rest) = unsigned_decimal s"
  by (simp add: unsigned_decimal_def fraction_digits_append after_fraction_append
      takeWhile_digit_append non_numeric_simps exponent_part_append)

lemma round_double_not_NaN: "round_double q \<noteq> NaN"
  by (simp add: round_double_def Let_def)

lemma unsigned_decimal_start:
  assumes "unsigned_decimal s \<noteq> None"
  shows "\<exists>c t. s = c # t \<and> c \<in> set ''0123456789.''"
proof (cases s)
  case Nil
  with assms show ?thesis
    by (simp add: unsigned_decimal_def fraction_digits_def after_integer_def)
next
  case (Cons c t)
  show ?thesis
  proof (cases "is_digit c")
    case True
    with Cons show ?thesis by (auto simp: is_digit_def)
  next
    case False
    with Cons assms have "c = CHR ''.''"
      by (auto simp: unsigned_decimal_def fraction_digits_def after_integer_def split: if_splits)
    with Cons show ?thesis by simp
  qed
qed

lemma unsigned_literal_append:
  assumes "non_numeric c" and "unsigned_literal s \<noteq> NaN"
  shows "unsigned_literal (s @ c # rest) = unsigned_literal s"
proof (cases "take 8 s = ''Infinity''")
  case True
  then have "length (take 8 s) = 8" by (simp only: True) simp
  then have "8 \<le> length s" by simp
  then show ?thesis using True by (simp add: unsigned_literal_def)
next
  case False
  with assms(2) have "unsigned_decimal s \<noteq> None"
    by (auto simp: unsigned_literal_def split: option.splits)
  from unsigned_decimal_start [OF this] obtain d t where s: "s = d # t" "d \<in> set ''0123456789.''"
    by blast
  then have "d \<noteq> CHR ''I''" by auto
  with s(1) have "take 8 (s @ c # rest) \<noteq> ''Infinity''" by simp
  with False assms(1) show ?thesis
    by (simp add: unsigned_literal_def unsigned_decimal_append)
qed

lemma negate_NaN: "negate x = NaN \<longleftrightarrow> x = NaN"
  by (cases x) (simp_all add: negate_def)

lemma decimal_literal_append:
  assumes "non_numeric c" and "decimal_literal s \<noteq> NaN"
  shows "decimal_literal (s @ c # rest) = decimal_literal s"
proof (cases s)
  case Nil
  with assms(2) show ?thesis by (simp add: decimal_literal_def)
next
  case (Cons a t)
  consider "a = CHR ''+''" | "a = CHR ''-''" | "a \<noteq> CHR ''+''" "a \<noteq> CHR ''-''" by blast
  then show ?thesis
  proof cases
    case 1
    with Cons assms(2) have "unsigned_literal t \<noteq> NaN" by (simp add: decimal_literal_def)
    from unsigned_literal_append [OF assms(1) this] Cons 1 show ?thesis
      by (simp add: decimal_literal_def)
  next
    case 2
    with Cons assms(2) have "unsigned_literal t \<noteq> NaN" by (simp add: decimal_literal_def negate_NaN)
    from unsigned_literal_append [OF assms(1) this] Cons 2 show ?thesis
      by (simp add: decimal_literal_def)
  next
    case 3
    with Cons assms(2) have "unsigned_literal s \<noteq> NaN" by (simp add: decimal_literal_def)
    from unsigned_literal_append [OF assms(1) this, of rest] Cons 3 show ?thesis
      by (simp add: decimal_literal_def)
  qed
qed

lemma decimal_literal_start:
  assumes "decimal_literal s \<noteq> NaN"
  shows "\<exists>c t. s = c # t \<and> c \<in> set ''+-I0123456789.''"
proof (cases s)
  case Nil
  with assms show ?thesis by (simp add: decimal_literal_def)
next
  case (Cons a t)
  have "a \<in> set ''+-I0123456789.''"
  proof (cases "a = CHR ''+'' \<or> a = CHR ''-''")
    case True
    then show ?thesis by (elim disjE) simp_all
  next
    case False
    with Cons assms have u: "unsigned_literal s \<noteq> NaN" by (simp add: decimal_literal_def)
    show ?thesis
    proof (cases "take 8 s = ''Infinity''")
      case True
      with Cons have "a = CHR ''I''" by simp
      then show ?thesis by simp
    next
      case False
      with u have "unsigned_decimal s \<noteq> None"
        by (auto simp: unsigned_literal_def split: option.splits)
      from unsigned_decimal_start [OF this] Cons have "a \<in> set ''0123456789.''" by simp
      then show ?thesis by (simp only: set_simps insert_iff) blast
    qed
  qed
  with Cons show ?thesis by blast
qed

lemma ws_length_literal_start:
  assumes "c \<in> set ''+-I0123456789.''"
  shows "ws_length (c # t) = 0"
proof -
  have "c \<notin> set [CHR 0x09, CHR 0x0A, CHR 0x0B, CHR 0x0C, CHR 0x0D, CHR 0x20, CHR 0xC2, CHR 0xE1, CHR 0xE2, CHR 0xE3, CHR 0xEF]"
    using assms by auto
  then have "take 1 (c # t) \<notin> set white_space_1" "take 2 (c # t) \<notin> set white_space_2"
    "take 3 (c # t) \<notin> set white_space_3"
    by (simp_all add: white_space_1_def white_space_2_def white_space_3_def)
  then show ?thesis by (simp add: ws_length_def)
qed

lemma white_space_lengths:
  "w \<in> set white_space_1 \<Longrightarrow> length w = 1"
  "w \<in> set white_space_2 \<Longrightarrow> length w = 2"
  "w \<in> set white_space_3 \<Longrightarrow> length w = 3"
  by (auto simp: white_space_1_def white_space_2_def white_space_3_def)

lemma take_length_le: "length (take n s) = n \<Longrightarrow> n \<le> length s"
  by simp

lemma ws_length_append:
  assumes "ws_length s \<noteq> 0"
  shows "ws_length (s @ r) = ws_length s \<and> ws_length s \<le> length s"
proof -
  consider "take 1 s \<in> set white_space_1"
    | "take 1 s \<notin> set white_space_1" "take 2 s \<in> set white_space_2"
    | "take 1 s \<notin> set white_space_1" "take 2 s \<notin> set white_space_2" "take 3 s \<in> set white_space_3"
    using assms by (auto simp: ws_length_def split: if_splits)
  then show ?thesis
  proof cases
    case 1
    from white_space_lengths(1) [OF 1] have "1 \<le> length s" by (rule take_length_le)
    with 1 show ?thesis by (simp add: ws_length_def)
  next
    case 2
    from white_space_lengths(2) [OF 2(2)] have "2 \<le> length s" by (rule take_length_le)
    with 2 show ?thesis by (simp add: ws_length_def)
  next
    case 3
    from white_space_lengths(3) [OF 3(3)] have "3 \<le> length s" by (rule take_length_le)
    with 3 show ?thesis by (simp add: ws_length_def)
  qed
qed

lemma trim_start_append:
  "decimal_literal (trim_start s) \<noteq> NaN \<Longrightarrow> trim_start (s @ r) = trim_start s @ r"
proof (induction s rule: trim_start.induct)
  case (1 s)
  show ?case
  proof (cases "ws_length s = 0")
    case True
    then have t: "trim_start s = s" by (simp add: trim_start.simps)
    with 1(2) obtain c u where "s = c # u" "c \<in> set ''+-I0123456789.''"
      using decimal_literal_start by metis
    then have "ws_length (s @ r) = 0"
      using ws_length_literal_start [of c "u @ r"] by simp
    with t show ?thesis by (simp add: trim_start.simps)
  next
    case False
    from 1(2) False have "decimal_literal (trim_start (drop (ws_length s) s)) \<noteq> NaN"
      by (simp add: trim_start.simps [of s])
    from 1(1) [OF False this] have "trim_start (drop (ws_length s) s @ r) = trim_start (drop (ws_length s) s) @ r" .
    moreover have "ws_length (s @ r) = ws_length s" "ws_length s \<le> length s"
      using ws_length_append [OF False, of r] by simp_all
    ultimately show ?thesis
      using False by (simp add: trim_start.simps [of s] trim_start.simps [of "s @ r"])
  qed
qed

lemma parseFloat_append:
  assumes "non_numeric c" and "parseFloat p \<noteq> NaN"
  shows "parseFloat (p @ c # rest) = parseFloat p"
  using assms by (simp add: parseFloat_def trim_start_append decimal_literal_append)

lemma trim_start_no_space: "ws_length s = 0 \<Longrightarrow> trim_start s = s"
  by (simp add: trim_start.simps)

lemma ws_length_Nil: "ws_length [] = 0"
  by (simp add: ws_length_def white_space_1_def white_space_2_def white_space_3_def)

lemma ws_length_N: "ws_length (CHR ''N'' # t) = 0"
  by (simp add: ws_length_def white_space_1_def white_space_2_def white_space_3_def)

lemma ws_length_minus: "ws_length (CHR ''-'' # t) = 0"
  by (simp add: ws_length_def white_space_1_def white_space_2_def white_space_3_def)

lemma parseFloat_Nil: "parseFloat [] = NaN"
  by (simp add: parseFloat_def trim_start_no_space ws_length_Nil decimal_literal_def)

lemma parseFloat_N: "parseFloat (CHR ''N'' # t) = NaN"
proof -
  have "unsigned_decimal (CHR ''N'' # t) = None"
    by (simp add: unsigned_decimal_def fraction_digits_def after_integer_def is_digit_def)
  then show ?thesis
    by (simp add: parseFloat_def trim_start_no_space ws_length_N decimal_literal_def unsigned_literal_def)
qed

lemma parseFloat_minus: "parseFloat ''-'' = NaN"
proof -
  have "unsigned_decimal [] = None"
    by (simp add: unsigned_decimal_def fraction_digits_def after_integer_def)
  then show ?thesis
    by (simp add: parseFloat_def trim_start_no_space ws_length_minus decimal_literal_def
        unsigned_literal_def negate_def)
qed

lemma parsed_not_missing:
  assumes "parseFloat p \<noteq> NaN"
  shows "\<not> missing (p @ r)"
proof (cases p)
  case Nil
  with assms show ?thesis by (simp add: parseFloat_Nil)
next
  case (Cons a t)
  with assms have "a \<noteq> CHR ''N''" using parseFloat_N by auto
  moreover from assms Cons have "\<not> (a = CHR ''-'' \<and> t = [])" using parseFloat_minus by auto
  ultimately show ?thesis using Cons by (auto simp: missing_def)
qed

lemma parseFloat_3_5: "parseFloat ''3.5'' = Finite (7/2)"
  by (simp add: scan_eval) (simp add: round_eval)
lemma parseFloat_minus_1_2: "parseFloat ''-1.2'' = Finite (- (5404319552844595 / 4503599627370496))"
  by (simp add: scan_eval) (simp add: round_eval)
lemma parseFloat_0: "parseFloat ''0'' = Finite 0"
  by (simp add: scan_eval) (simp add: round_eval)
lemma parseFloat_abc: "parseFloat ''abc'' = NaN"
  by (simp add: scan_eval)
lemma toFixed_3_5: "toFixed (Finite (7/2)) 2 = ''3.50''"
  by (simp add: fixed_eval)
lemma toFixed_minus_1_2: "toFixed (Finite (- (5404319552844595 / 4503599627370496))) 2 = ''-1.20''"
  by (simp add: fixed_eval)
lemma toFixed_0: "toFixed (Finite 0) 2 = ''0.00''"
  by (simp add: fixed_eval)

lemma format_values:
  "formatCurrency ''3.5'' = ''$3.50'' \<and> formatCurrency ''abc'' = ''abc'' \<and>
   formatPercent ''-1.2'' = ''-1.20%'' \<and> formatPercent ''0'' = ''+0.00%'' \<and>
   formatPercent ''3.5'' = ''+3.50%'' \<and> parseFloat ''3.5'' \<noteq> NaN \<and> ge_zero (parseFloat ''0'')"
  by (simp add: formatCurrency_def formatPercent_def missing_def isNaN_def ge_zero_def
      parseFloat_3_5 parseFloat_minus_1_2 parseFloat_0 parseFloat_abc
      toFixed_3_5 toFixed_minus_1_2 toFixed_0)

text \<open>
  C8. The values the specification lists: \<open>formatCurrency\<close> gives \<open>N/A\<close> for the empty
  string, \<open>NA\<close> and \<open>-\<close>, \<open>$3.50\<close> for \<open>3.5\<close>, and \<open>abc\<close> for \<open>abc\<close>;
  \<open>formatPercent\<close> gives \<open>-1.20%\<close> for \<open>-1.2\<close>, \<open>+0.00%\<close> for \<open>0\<close> and \<open>N/A\<close>
  for \<open>NA\<close>. The sign \<open>+\<close> is put before every parsed value that is not negative.
\<close>

theorem format_examples:
  "formatCurrency [] = ''N/A'' \<and> formatCurrency ''NA'' = ''N/A'' \<and> formatCurrency ''-'' = ''N/A'' \<and>
   formatCurrency ''3.5'' = ''$3.50'' \<and> formatCurrency ''abc'' = ''abc'' \<and>
   formatPercent ''-1.2'' = ''-1.20%'' \<and> formatPercent ''0'' = ''+0.00%'' \<and>
   formatPercent ''NA'' = ''N/A'' \<and>
   (\<forall>v. \<not> missing v \<and> ge_zero (parseFloat v) \<longrightarrow>
        formatPercent v = ''+'' @ toFixed (parseFloat v) 2 @ ''%'')"
proof (intro conjI)
  show "formatCurrency [] = ''N/A''" by (simp add: formatCurrency_def missing_def)
  show "formatCurrency ''NA'' = ''N/A''" by (simp add: formatCurrency_def missing_def)
  show "formatCurrency ''-'' = ''N/A''" by (simp add: formatCurrency_def missing_def)
  show "formatCurrency ''3.5'' = ''$3.50''" using format_values by blast
  show "formatCurrency ''abc'' = ''abc''" using format_values by blast
  show "formatPercent ''-1.2'' = ''-1.20%''" using format_values by blast
  show "formatPercent ''0'' = ''+0.00%''" using format_values by blast
  show "formatPercent ''NA'' = ''N/A''" by (simp add: formatPercent_def missing_def)
  show "\<forall>v. \<not> missing v \<and> ge_zero (parseFloat v) \<longrightarrow>
        formatPercent v = ''+'' @ toFixed (parseFloat v) 2 @ ''%''"
    by (auto simp: formatPercent_def isNaN_def ge_zero_def Let_def)
qed

theorem format_examples_witness:
  "\<not> missing ''0'' \<and> ge_zero (parseFloat ''0'') \<and> ''+'' @ toFixed (parseFloat ''0'') 2 @ ''%'' = ''+0.00%''"
proof -
  have 1: "\<not> missing ''0''" by (simp add: missing_def)
  have 2: "ge_zero (parseFloat ''0'')" using format_values by blast
  from format_examples have "formatPercent ''0'' = ''+0.00%''"
    and "\<not> missing ''0'' \<and> ge_zero (parseFloat ''0'') \<longrightarrow>
        formatPercent ''0'' = ''+'' @ toFixed (parseFloat ''0'') 2 @ ''%''"
    by blast+
  with 1 2 show ?thesis by simp
qed

text \<open>
  The numeric prefix holds all that \<open>parseFloat\<close> reads: scanning the prefix alone gives
  the digits, the fraction and the exponent of the whole string.
\<close>

lemma scan_digits:
  assumes "list_all is_digit i" and "x = [] \<or> \<not> is_digit (hd x)"
  shows "takeWhile is_digit (i @ x) = i" and "dropWhile is_digit (i @ x) = x"
proof -
  from assms(2) have x: "takeWhile is_digit x = []" "dropWhile is_digit x = x"
    by (cases x; auto)+
  from assms(1) have "\<And>c. c \<in> set i \<Longrightarrow> is_digit c" by (simp add: list_all_iff)
  then show "takeWhile is_digit (i @ x) = i" and "dropWhile is_digit (i @ x) = x"
    using x by (simp_all add: takeWhile_append2 dropWhile_append2)
qed

lemma digits_takeWhile: "list_all is_digit (takeWhile is_digit s)"
  by (induction s) simp_all

lemma not_digit_signs:
  "\<not> is_digit CHR ''+''" "\<not> is_digit CHR ''-''" "\<not> is_digit CHR ''.''" "\<not> is_digit CHR ''e''"
  "\<not> is_digit CHR ''E''" "\<not> is_digit CHR ''I''"
  by (simp_all add: is_digit_def)

lemma exponent_text_start:
  "exponent_text s = [] \<or> hd (exponent_text s) = CHR ''e'' \<or> hd (exponent_text s) = CHR ''E''"
  by (auto simp: exponent_text_def split: list.splits)

lemma exponent_text_not_digit:
  "exponent_text s = [] \<or> \<not> is_digit (hd (exponent_text s))"
  using exponent_text_start [of s] by (auto simp: not_digit_signs)

lemma exponent_text_prefix: "\<exists>r. s = exponent_text s @ r"
proof (cases s)
  case Nil
  then show ?thesis by (simp add: exponent_text_def)
next
  case (Cons c t)
  have tw: "\<And>u :: string. \<exists>r. u = takeWhile is_digit u @ r"
    by (metis takeWhile_dropWhile_id)
  show ?thesis
  proof (cases t)
    case Nil
    with Cons show ?thesis by (simp add: exponent_text_def)
  next
    case (Cons d u)
    from tw [of u] tw [of t] \<open>s = c # t\<close> Cons show ?thesis
      by (auto simp: exponent_text_def)
  qed
qed

lemma exponent_part_text: "exponent_part (exponent_text s) = exponent_part s"
proof (cases s)
  case Nil
  then show ?thesis by (simp add: exponent_text_def)
next
  case s: (Cons c t)
  show ?thesis
  proof (cases t)
    case Nil
    with s show ?thesis by (simp add: exponent_text_def exponent_part_def)
  next
    case (Cons d u)
    with s show ?thesis
      by (auto simp: exponent_text_def exponent_part_def signed_integer_def nat_of_digits_def
          not_digit_signs)
  qed
qed

lemma unsigned_text_None: "unsigned_text s = None \<longleftrightarrow> unsigned_literal s = NaN"
  by (simp add: unsigned_text_def unsigned_literal_def unsigned_decimal_def round_double_not_NaN)

lemma Infinity_start: "take 8 s = ''Infinity'' \<Longrightarrow> s \<noteq> [] \<and> hd s = CHR ''I''"
  by (cases s) auto

lemma unsigned_text_parts:
  assumes "take 8 s \<noteq> ''Infinity''" and "unsigned_text s = Some p"
  shows "takeWhile is_digit p = takeWhile is_digit s \<and> fraction_digits p = fraction_digits s \<and>
         after_fraction p = exponent_text (after_fraction s) \<and> (\<exists>r. s = p @ r) \<and>
         p \<noteq> [] \<and> (is_digit (hd p) \<or> hd p = CHR ''.'')"
proof -
  define i where "i = takeWhile is_digit s"
  have i: "list_all is_digit i" by (simp add: i_def digits_takeWhile)
  have s: "s = i @ after_integer s" by (simp add: i_def after_integer_def)
  from assms have some: "i \<noteq> [] \<or> fraction_digits s \<noteq> []"
    and p: "p = i @ point_text s @ fraction_digits s @ exponent_text (after_fraction s)"
    by (auto simp: unsigned_text_def i_def split: if_splits)
  show ?thesis
  proof (cases "after_integer s")
    case Nil
    then have parts: "fraction_digits s = []" "point_text s = []" "after_fraction s = []"
      by (simp_all add: fraction_digits_def point_text_def after_fraction_def)
    with p some have "p = i" "i \<noteq> []" by (simp_all add: exponent_text_def)
    moreover from s Nil have "s = i" by simp
    ultimately have "p = s" "p \<noteq> []" by simp_all
    moreover from \<open>i \<noteq> []\<close> i have "is_digit (hd i)" by (cases i) simp_all
    with \<open>p = i\<close> have "is_digit (hd p)" by simp
    moreover have "exponent_text (after_fraction s) = after_fraction s"
      by (simp add: parts exponent_text_def)
    ultimately show ?thesis by simp
  next
    case (Cons c t)
    show ?thesis
    proof (cases "c = CHR ''.''")
      case True
      define f where "f = takeWhile is_digit t"
      define e where "e = exponent_text (dropWhile is_digit t)"
      have f: "list_all is_digit f" by (simp add: f_def digits_takeWhile)
      have e: "e = [] \<or> \<not> is_digit (hd e)" unfolding e_def by (rule exponent_text_not_digit)
      from Cons True have parts: "fraction_digits s = f" "point_text s = ''.''" "after_fraction s = dropWhile is_digit t"
        by (simp_all add: fraction_digits_def point_text_def after_fraction_def f_def)
      with p have p': "p = i @ CHR ''.'' # f @ e" by (simp add: e_def)
      have 1: "takeWhile is_digit p = i" "dropWhile is_digit p = CHR ''.'' # f @ e"
        unfolding p' using scan_digits [OF i, of "CHR ''.'' # f @ e"] by (simp_all add: not_digit_signs)
      have 2: "takeWhile is_digit (f @ e) = f" "dropWhile is_digit (f @ e) = e"
        using scan_digits [OF f e] by simp_all
      obtain r where "dropWhile is_digit t = e @ r"
        unfolding e_def using exponent_text_prefix by blast
      moreover have "t = takeWhile is_digit t @ dropWhile is_digit t" by simp
      ultimately have "t = f @ e @ r" by (simp only: f_def)
      with s Cons True p' have "s = p @ r" by simp
      moreover have "p \<noteq> [] \<and> (is_digit (hd p) \<or> hd p = CHR ''.'')"
        using i unfolding p' by (cases i) simp_all
      moreover have "takeWhile is_digit p = takeWhile is_digit s"
        using 1(1) by (simp only: i_def)
      moreover have "fraction_digits p = fraction_digits s"
        by (simp add: fraction_digits_def [of p] after_integer_def 1(2) 2(1) parts(1))
      moreover have "after_fraction p = exponent_text (after_fraction s)"
        by (simp add: after_fraction_def [of p] after_integer_def 1(2) 2(2) parts(3) e_def [symmetric])
      ultimately show ?thesis by blast
    next
      case False
      define e where "e = exponent_text (c # t)"
      have e: "e = [] \<or> \<not> is_digit (hd e)" unfolding e_def by (rule exponent_text_not_digit)
      have e': "e = [] \<or> hd e \<noteq> CHR ''.''"
        using exponent_text_start [of "c # t"] unfolding e_def by auto
      from Cons False have parts: "fraction_digits s = []" "point_text s = []" "after_fraction s = c # t"
        by (simp_all add: fraction_digits_def point_text_def after_fraction_def)
      with p some have p': "p = i @ e" and ne: "i \<noteq> []" by (simp_all add: e_def)
      have 1: "takeWhile is_digit p = i" "dropWhile is_digit p = e"
        unfolding p' using scan_digits [OF i e] by simp_all
      obtain r where "c # t = e @ r"
        unfolding e_def using exponent_text_prefix by blast
      with s Cons p' have "s = p @ r" by simp
      moreover have "p \<noteq> [] \<and> (is_digit (hd p) \<or> hd p = CHR ''.'')"
        using i ne unfolding p' by (cases i) simp_all
      moreover have "takeWhile is_digit p = takeWhile is_digit s"
        using 1(1) by (simp only: i_def)
      moreover have "fraction_digits p = fraction_digits s"
        using e' by (cases e) (simp_all add: fraction_digits_def [of p] after_integer_def 1(2) parts(1))
      moreover have "after_fraction p = exponent_text (after_fraction s)"
        using e' by (cases e) (simp_all add: after_fraction_def [of p] after_integer_def 1(2) parts(3) e_def [symmetric])
      ultimately show ?thesis by blast
    qed
  qed
qed

lemma unsigned_text_Some:
  assumes "unsigned_text s = Some p"
  shows "unsigned_literal p = unsigned_literal s \<and> (\<exists>r. s = p @ r) \<and> p \<noteq> [] \<and>
         hd p \<in> set ''I0123456789.''"
proof (cases "take 8 s = ''Infinity''")
  case True
  with assms have p: "p = ''Infinity''" by (simp add: unsigned_text_def)
  have "s = take 8 s @ drop 8 s" by simp
  with True have "\<exists>r. s = ''Infinity'' @ r" by metis
  with p True show ?thesis by (simp add: unsigned_literal_def)
next
  case False
  from unsigned_text_parts [OF False assms]
  have parts: "takeWhile is_digit p = takeWhile is_digit s" "fraction_digits p = fraction_digits s"
    "after_fraction p = exponent_text (after_fraction s)" and pre: "\<exists>r. s = p @ r"
    and start: "p \<noteq> []" "is_digit (hd p) \<or> hd p = CHR ''.''"
    by blast+
  from start have "hd p \<noteq> CHR ''I''" by (auto simp: not_digit_signs)
  then have "take 8 p \<noteq> ''Infinity''" using Infinity_start by blast
  then have "unsigned_literal p = unsigned_literal s"
    using False by (simp add: unsigned_literal_def unsigned_decimal_def parts exponent_part_text)
  moreover from start have "hd p \<in> set ''I0123456789.''" by (auto simp: is_digit_def)
  ultimately show ?thesis using pre start by blast
qed

lemma literal_text_None: "literal_text s = None \<longleftrightarrow> decimal_literal s = NaN"
  by (cases s) (simp_all add: literal_text_def decimal_literal_def unsigned_text_None negate_NaN)

lemma literal_text_Some:
  assumes "literal_text s = Some p"
  shows "decimal_literal p = decimal_literal s \<and> (\<exists>r. s = p @ r)"
proof (cases s)
  case Nil
  with assms show ?thesis by (simp add: literal_text_def)
next
  case (Cons c t)
  show ?thesis
  proof (cases "c = CHR ''+'' \<or> c = CHR ''-''")
    case True
    with Cons assms obtain q where q: "unsigned_text t = Some q" "p = c # q"
      by (auto simp: literal_text_def)
    from unsigned_text_Some [OF q(1)] have "unsigned_literal q = unsigned_literal t" "\<exists>r. t = q @ r"
      by blast+
    with Cons True q(2) show ?thesis by (auto simp: decimal_literal_def)
  next
    case False
    with Cons assms have u: "unsigned_text s = Some p" by (simp add: literal_text_def)
    from unsigned_text_Some [OF u]
    have eq: "unsigned_literal p = unsigned_literal s" and pre: "\<exists>r. s = p @ r" and ne: "p \<noteq> []"
      by blast+
    from pre ne Cons have "hd p = c" by (cases p) auto
    with ne False have "decimal_literal p = unsigned_literal p"
      by (cases p) (auto simp: decimal_literal_def)
    moreover from Cons False have "decimal_literal s = unsigned_literal s"
      by (auto simp: decimal_literal_def)
    ultimately show ?thesis using eq pre by simp
  qed
qed

lemma numeric_prefix_None: "numeric_prefix v = None \<longleftrightarrow> parseFloat v = NaN"
  by (simp add: numeric_prefix_def parseFloat_def literal_text_None)

lemma numeric_prefix_Some:
  assumes "numeric_prefix v = Some p"
  shows "parseFloat p = parseFloat v \<and> parseFloat v \<noteq> NaN \<and> (\<exists>rest. trim_start v = p @ rest)"
proof -
  from assms have l: "literal_text (trim_start v) = Some p" by (simp add: numeric_prefix_def)
  from literal_text_Some [OF l]
  have eq: "decimal_literal p = decimal_literal (trim_start v)" and pre: "\<exists>rest. trim_start v = p @ rest"
    by blast+
  from l have ok: "decimal_literal (trim_start v) \<noteq> NaN"
    using literal_text_None [of "trim_start v"] by simp
  with eq have "decimal_literal p \<noteq> NaN" by simp
  from decimal_literal_start [OF this] obtain c t where p: "p = c # t" "c \<in> set ''+-I0123456789.''"
    by blast
  from ws_length_literal_start [OF p(2), of t] p(1) have "ws_length p = 0" by simp
  then have "trim_start p = p" by (rule trim_start_no_space)
  with eq ok pre show ?thesis by (simp add: parseFloat_def)
qed

lemma formatCurrency_changes:
  assumes "parseFloat v \<noteq> NaN"
  shows "formatCurrency v = ''$'' @ toFixed (parseFloat v) 2 \<and> formatCurrency v \<noteq> v"
proof -
  have m: "\<not> missing v" using parsed_not_missing [OF assms, of "[]"] by simp
  then have fc: "formatCurrency v = ''$'' @ toFixed (parseFloat v) 2"
    using assms by (simp add: formatCurrency_def isNaN_def)
  have start: "\<exists>a t. trim_start v = a # t \<and> a \<in> set ''+-I0123456789.''"
    using assms decimal_literal_start by (simp add: parseFloat_def)
  have "hd v \<noteq> CHR ''$''"
  proof (cases "ws_length v = 0")
    case True
    with start show ?thesis by (auto simp: trim_start_no_space)
  next
    case False
    then have "v \<noteq> []" using ws_length_Nil by auto
    moreover have "ws_length (CHR ''$'' # tl v) = 0"
      by (simp add: ws_length_def white_space_1_def white_space_2_def white_space_3_def)
    ultimately show ?thesis using False by (cases v) auto
  qed
  then have "formatCurrency v \<noteq> v"
    unfolding fc by (cases v) auto
  with fc show ?thesis by simp
qed

lemma formatPercent_parsed:
  assumes "parseFloat v \<noteq> NaN"
  shows "formatPercent v = (if ge_zero (parseFloat v) then ''+'' else []) @ toFixed (parseFloat v) 2 @ ''%''"
proof -
  have "\<not> missing v" using parsed_not_missing [OF assms, of "[]"] by simp
  then show ?thesis using assms by (simp add: formatPercent_def isNaN_def)
qed

lemma numeric_prefix_values:
  "numeric_prefix ''3.5abc'' = Some ''3.5'' \<and> numeric_prefix ''1.2.3'' = Some ''1.2'' \<and>
   numeric_prefix ''3.5-'' = Some ''3.5'' \<and> numeric_prefix ''abc'' = None \<and>
   numeric_prefix ''+3.50%'' = Some ''+3.50''"
  by (simp add: numeric_prefix_def literal_text_def unsigned_text_def point_text_def exponent_text_def
      trim_start.simps ws_length_def white_space_1_def white_space_2_def white_space_3_def
      fraction_digits_def after_integer_def after_fraction_def is_digit_def)

lemma parseFloat_1_2: "parseFloat ''1.2'' = Finite (5404319552844595 / 4503599627370496)"
  by (simp add: scan_eval) (simp add: round_eval)
lemma parseFloat_plus_3_50: "parseFloat ''+3.50'' = Finite (7/2)"
  by (simp add: scan_eval) (simp add: round_eval)
lemma toFixed_1_2: "toFixed (Finite (5404319552844595 / 4503599627370496)) 2 = ''1.20''"
  by (simp add: fixed_eval)

text \<open>
  C10. \<open>parseFloat\<close> reads a prefix. A string has no numeric prefix exactly when
  \<open>parseFloat\<close> gives \<open>NaN\<close>, and only then do the formatters return it through the
  branch for a failed parse. When the string starts with a numeric prefix, whatever
  follows it, both formatters give what they give for the prefix alone, the formatted
  number. The result of \<open>formatCurrency\<close> then differs from the string; the result of
  \<open>formatPercent\<close> is the string itself exactly when the string already is the formatted
  text. Cutting a string that parses before a character that cannot continue a literal
  changes nothing either.
\<close>

theorem format_numeric_prefix:
  "(numeric_prefix v = None \<longleftrightarrow> parseFloat v = NaN) \<and>
   (numeric_prefix v = None \<and> \<not> missing v \<longrightarrow> formatCurrency v = v \<and> formatPercent v = v) \<and>
   (\<forall>p. numeric_prefix v = Some p \<longrightarrow>
      (\<exists>rest. trim_start v = p @ rest) \<and>
      parseFloat v = parseFloat p \<and> parseFloat p \<noteq> NaN \<and>
      formatCurrency v = formatCurrency p \<and>
      formatCurrency v = ''$'' @ toFixed (parseFloat p) 2 \<and>
      formatPercent v = formatPercent p \<and>
      formatPercent v = (if ge_zero (parseFloat p) then ''+'' else []) @ toFixed (parseFloat p) 2 @ ''%'' \<and>
      formatCurrency v \<noteq> v \<and>
      (formatPercent v = v \<longleftrightarrow>
         v = (if ge_zero (parseFloat p) then ''+'' else []) @ toFixed (parseFloat p) 2 @ ''%'')) \<and>
   (\<forall>p c rest. v = p @ c # rest \<and> parseFloat p \<noteq> NaN \<and> non_numeric c \<longrightarrow>
      parseFloat v = parseFloat p \<and> formatCurrency v = formatCurrency p \<and>
      formatPercent v = formatPercent p)"
proof (intro conjI allI impI)
  show "numeric_prefix v = None \<longleftrightarrow> parseFloat v = NaN"
    by (rule numeric_prefix_None)
next
  assume "numeric_prefix v = None \<and> \<not> missing v"
  then have "parseFloat v = NaN" "\<not> missing v" by (simp_all add: numeric_prefix_None)
  then show "formatCurrency v = v" "formatPercent v = v"
    by (simp_all add: formatCurrency_def formatPercent_def isNaN_def)
next
  fix p
  assume "numeric_prefix v = Some p"
  from numeric_prefix_Some [OF this]
  have eq: "parseFloat p = parseFloat v" and v: "parseFloat v \<noteq> NaN"
    and pre: "\<exists>rest. trim_start v = p @ rest"
    by blast+
  from eq v have p: "parseFloat p \<noteq> NaN" by simp
  show "\<exists>rest. trim_start v = p @ rest" by (rule pre)
  show "parseFloat v = parseFloat p" by (simp add: eq)
  show "parseFloat p \<noteq> NaN" by (rule p)
  show "formatCurrency v = ''$'' @ toFixed (parseFloat p) 2"
    using formatCurrency_changes [OF v] by (simp add: eq)
  then show "formatCurrency v = formatCurrency p"
    using formatCurrency_changes [OF p] by simp
  show fp: "formatPercent v = (if ge_zero (parseFloat p) then ''+'' else []) @ toFixed (parseFloat p) 2 @ ''%''"
    using formatPercent_parsed [OF v] by (simp add: eq)
  then show "formatPercent v = formatPercent p"
    using formatPercent_parsed [OF p] by simp
  show "formatCurrency v \<noteq> v"
    using formatCurrency_changes [OF v] by blast
  show "formatPercent v = v \<longleftrightarrow>
      v = (if ge_zero (parseFloat p) then ''+'' else []) @ toFixed (parseFloat p) 2 @ ''%''"
    unfolding fp by (rule eq_commute)
next
  fix p c rest
  assume a: "v = p @ c # rest \<and> parseFloat p \<noteq> NaN \<and> non_numeric c"
  then have p: "parseFloat p \<noteq> NaN" and c: "non_numeric c" and v: "v = p @ c # rest" by simp_all
  show pf: "parseFloat v = parseFloat p"
    unfolding v by (rule parseFloat_append [OF c p])
  with p have pv: "parseFloat v \<noteq> NaN" by simp
  show "formatCurrency v = formatCurrency p"
    using formatCurrency_changes [OF pv] formatCurrency_changes [OF p] by (simp add: pf)
  show "formatPercent v = formatPercent p"
    using formatPercent_parsed [OF pv] formatPercent_parsed [OF p] by (simp add: pf)
qed

text \<open>
  Witness: \<open>3.5abc\<close>, \<open>1.2.3\<close> and \<open>3.5-\<close> are formatted as their prefixes \<open>3.5\<close>,
  \<open>1.2\<close> and \<open>3.5\<close>; \<open>abc\<close> has no numeric prefix and is returned as it is.
\<close>

theorem format_numeric_prefix_witness:
  "numeric_prefix ''3.5abc'' = Some ''3.5'' \<and>
   formatCurrency ''3.5abc'' = ''$3.50'' \<and> formatPercent ''3.5abc'' = ''+3.50%'' \<and>
   numeric_prefix ''1.2.3'' = Some ''1.2'' \<and> formatCurrency ''1.2.3'' = ''$1.20'' \<and>
   numeric_prefix ''3.5-'' = Some ''3.5'' \<and> formatPercent ''3.5-'' = ''+3.50%'' \<and>
   numeric_prefix ''abc'' = None \<and> \<not> missing ''abc'' \<and> formatPercent ''abc'' = ''abc'' \<and>
   parseFloat ''3.5'' \<noteq> NaN \<and> non_numeric CHR ''a'' \<and>
   formatCurrency (''3.5'' @ CHR ''a'' # ''bc'') = formatCurrency ''3.5''"
proof -
  have v: "formatCurrency ''3.5'' = ''$3.50''" "formatPercent ''3.5'' = ''+3.50%''"
    "parseFloat ''3.5'' \<noteq> NaN"
    using format_values by blast+
  have n: "numeric_prefix ''3.5abc'' = Some ''3.5''" "numeric_prefix ''1.2.3'' = Some ''1.2''"
    "numeric_prefix ''3.5-'' = Some ''3.5''" "numeric_prefix ''abc'' = None"
    using numeric_prefix_values by blast+
  have c: "non_numeric CHR ''a''" by (simp add: non_numeric_def)
  have m: "\<not> missing ''abc''" by (simp add: missing_def)
  have "formatCurrency ''3.5abc'' = formatCurrency ''3.5''"
    and "formatPercent ''3.5abc'' = formatPercent ''3.5''"
    using format_numeric_prefix [of "''3.5abc''"] n(1) by blast+
  then have 1: "formatCurrency ''3.5abc'' = ''$3.50''" "formatPercent ''3.5abc'' = ''+3.50%''"
    by (simp_all add: v)
  have "formatCurrency ''1.2.3'' = ''$'' @ toFixed (parseFloat ''1.2'') 2"
    using format_numeric_prefix [of "''1.2.3''"] n(2) by blast
  then have 2: "formatCurrency ''1.2.3'' = ''$1.20''"
    by (simp add: parseFloat_1_2 toFixed_1_2)
  have "formatPercent ''3.5-'' = formatPercent ''3.5''"
    using format_numeric_prefix [of "''3.5-''"] n(3) by blast
  then have 3: "formatPercent ''3.5-'' = ''+3.50%''"
    by (simp add: v)
  have 4: "formatPercent ''abc'' = ''abc''"
    using format_numeric_prefix [of "''abc''"] n(4) m by blast
  have 5: "formatCurrency (''3.5'' @ CHR ''a'' # ''bc'') = formatCurrency ''3.5''"
    using format_numeric_prefix [of "''3.5'' @ CHR ''a'' # ''bc''"] v(3) c by blast
  from n 1 2 3 4 m v(3) c 5 show ?thesis by blast
qed

text \<open>
  The string \<open>+3.50%\<close> starts with the numeric prefix \<open>+3.50\<close>, followed by a character
  that is not numeric, and \<open>formatPercent\<close> returns the string unchanged: it is the
  formatted text of its own prefix.
\<close>

theorem formatPercent_unchanged_counterexample:
  "numeric_prefix ''+3.50%'' = Some ''+3.50'' \<and> parseFloat ''+3.50'' \<noteq> NaN \<and>
   non_numeric CHR ''%'' \<and> formatPercent (''+3.50'' @ CHR ''%'' # []) = ''+3.50'' @ CHR ''%'' # []"
proof -
  have "parseFloat ''+3.50%'' = Finite (7/2)"
    by (simp add: scan_eval) (simp add: round_eval)
  then have "formatPercent ''+3.50%'' = ''+3.50%''"
    by (simp add: formatPercent_def missing_def isNaN_def ge_zero_def toFixed_3_5)
  moreover have "non_numeric CHR ''%''" by (simp add: non_numeric_def)
  moreover have "numeric_prefix ''+3.50%'' = Some ''+3.50''" using numeric_prefix_values by blast
  ultimately show ?thesis by (simp add: parseFloat_plus_3_50)
qed
section \<open>Properties of the JSON text\<close>

subsection \<open>Strings are read back\<close>

lemma hex_val_lower: "k < 16 \<Longrightarrow> hex_val (hex_lower k) = Some k"
proof -
  have "list_all (\<lambda>k. hex_val (hex_lower k) = Some k) [0, 1, 2, 3, 4, 5, 6, 7, 8, 9, 10, 11, 12, 13, 14, 15]"
    by (simp add: hex_val_def hex_lower_def)
  moreover assume "k < 16"
  then have "k \<in> set [0, 1, 2, 3, 4, 5, 6, 7, 8, 9, 10, 11, 12, 13, 14, 15]" by (simp; arith)
  ultimately show ?thesis unfolding list_all_iff by blast
qed

lemma hex4_escape:
  assumes "n < 32"
  shows "hex4 (CHR ''0'' # CHR ''0'' # hex_lower (n div 16) # hex_lower (n mod 16) # s) = Some n"
proof -
  have "n div 16 < 16" "n mod 16 < 16" using assms by simp_all
  then have "hex_val (hex_lower (n div 16)) = Some (n div 16)"
    "hex_val (hex_lower (n mod 16)) = Some (n mod 16)"
    by (simp_all add: hex_val_lower)
  moreover have "hex_val CHR ''0'' = Some 0" by (simp add: hex_val_def)
  ultimately show ?thesis by (simp add: hex4_def)
qed

lemma string_items_escape_char:
  "string_items (escape_char c @ s) = add_item (item_of c) (string_items s)"
proof -
  consider "c = CHR 0x22" | "c = CHR 0x5C" | "c = CHR 0x08" | "c = CHR 0x0C" | "c = CHR 0x0A"
    | "c = CHR 0x0D" | "c = CHR 0x09"
    | "c \<notin> set [CHR 0x22, CHR 0x5C, CHR 0x08, CHR 0x0C, CHR 0x0A, CHR 0x0D, CHR 0x09]" "(of_char c :: nat) < 32"
    | "c \<notin> set [CHR 0x22, CHR 0x5C, CHR 0x08, CHR 0x0C, CHR 0x0A, CHR 0x0D, CHR 0x09]" "\<not> (of_char c :: nat) < 32"
    by auto
  then show ?thesis
  proof cases
    case 8
    then show ?thesis
      by (simp add: escape_char_def item_of_def hex4_escape)
  next
    case 9
    then show ?thesis
      by (simp add: escape_char_def item_of_def)
  qed (simp_all add: escape_char_def item_of_def simple_escape_def)
qed

lemma string_items_quoted:
  "string_items (concat (map escape_char s) @ CHR 0x22 # rest) = Some (map item_of s, rest)"
  by (induction s) (simp_all add: string_items_escape_char add_item_def)

lemma decode_items_Unit:
  "u < 128 \<Longrightarrow> decode_items (Unit u # xs) = char_of u # decode_items xs"
  by (cases xs rule: decode_items.cases) (simp_all add: utf8_def)

lemma decode_items_of: "decode_items (map item_of s) = s"
  by (induction s) (simp_all add: item_of_def decode_items_Unit)

subsection \<open>Integers are read back\<close>

lemma digit_char_is_digit: "d < 10 \<Longrightarrow> is_digit (digit_char d)"
proof -
  have "list_all (\<lambda>d. is_digit (digit_char d)) [0, 1, 2, 3, 4, 5, 6, 7, 8, 9]"
    by (simp add: is_digit_def digit_char_def)
  moreover assume "d < 10"
  then have "d \<in> set [0, 1, 2, 3, 4, 5, 6, 7, 8, 9]" by (simp; arith)
  ultimately show ?thesis unfolding list_all_iff by blast
qed

lemma digit_val_digit_char: "d < 10 \<Longrightarrow> digit_val (digit_char d) = d"
proof -
  have "list_all (\<lambda>d. digit_val (digit_char d) = d) [0, 1, 2, 3, 4, 5, 6, 7, 8, 9]"
    by (simp add: digit_val_def digit_char_def)
  moreover assume "d < 10"
  then have "d \<in> set [0, 1, 2, 3, 4, 5, 6, 7, 8, 9]" by (simp; arith)
  ultimately show ?thesis unfolding list_all_iff by blast
qed

lemma digit_char_zero: "d < 10 \<Longrightarrow> digit_char d = CHR ''0'' \<longleftrightarrow> d = 0"
proof -
  have "list_all (\<lambda>d. digit_char d = CHR ''0'' \<longleftrightarrow> d = 0) [0, 1, 2, 3, 4, 5, 6, 7, 8, 9]"
    by (simp add: digit_char_def)
  moreover assume "d < 10"
  then have "d \<in> set [0, 1, 2, 3, 4, 5, 6, 7, 8, 9]" by (simp; arith)
  ultimately show ?thesis unfolding list_all_iff by blast
qed

lemma digits_of_digits: "list_all is_digit (digits_of n)"
proof (induction n rule: digits_of.induct)
  case (1 n)
  then show ?case
    by (subst digits_of.simps) (simp add: digit_char_is_digit)
qed

lemma digits_of_not_Nil: "digits_of n \<noteq> []"
  by (subst digits_of.simps) simp

lemma nat_of_digits_snoc: "nat_of_digits (ds @ [c]) = 10 * nat_of_digits ds + digit_val c"
  by (simp add: nat_of_digits_def)

lemma nat_of_digits_of: "nat_of_digits (digits_of n) = n"
proof (induction n rule: digits_of.induct)
  case (1 n)
  show ?case
  proof (cases "n < 10")
    case True
    then show ?thesis
      by (subst digits_of.simps) (simp add: nat_of_digits_def digit_val_digit_char)
  next
    case False
    with 1 have "nat_of_digits (digits_of (n div 10)) = n div 10" by simp
    with False show ?thesis
      by (subst digits_of.simps) (simp add: nat_of_digits_snoc digit_val_digit_char)
  qed
qed

lemma hd_digits_of: "hd (digits_of n) = CHR ''0'' \<longleftrightarrow> n = 0"
proof (induction n rule: digits_of.induct)
  case (1 n)
  show ?case
  proof (cases "n < 10")
    case True
    then show ?thesis
      by (subst digits_of.simps) (simp add: digit_char_zero)
  next
    case False
    with 1 have "hd (digits_of (n div 10)) = CHR ''0'' \<longleftrightarrow> n div 10 = 0" by simp
    moreover from False have "n div 10 \<noteq> 0" by simp
    ultimately show ?thesis using False digits_of_not_Nil [of "n div 10"]
      by (subst digits_of.simps) simp
  qed
qed

lemma digits_of_0: "digits_of 0 = ''0''"
  by (subst digits_of.simps) (simp add: digit_char_def)

lemma takeWhile_digits_of:
  "\<not> is_digit c \<Longrightarrow> takeWhile is_digit (digits_of n @ c # rest) = digits_of n"
  using digits_of_digits [of n] by (simp add: list_all_iff)

lemma bitlen_le: "n < 2 ^ k \<Longrightarrow> bitlen n \<le> k"
proof (induction n arbitrary: k rule: bitlen.induct)
  case (1 n)
  show ?case
  proof (cases "n = 0")
    case True
    then show ?thesis by (simp add: bitlen.simps)
  next
    case False
    with 1(2) obtain j where k: "k = Suc j" by (cases k) auto
    with 1(2) have "n div 2 < 2 ^ j" by auto
    from 1(1) [OF False this] False k show ?thesis
      by (subst bitlen.simps) simp
  qed
qed

lemma bitlen_pos: "0 < n \<Longrightarrow> 0 < bitlen n"
  by (subst bitlen.simps) simp

lemma round_half_even_int: "round_half_even (of_int m) = m"
  by (simp add: round_half_even_def)

lemma round_double_nat:
  assumes "n < 2 ^ 53"
  shows "round_double (of_nat n) = Finite (of_nat n)"
proof (cases "n = 0")
  case True
  then show ?thesis by (simp add: round_double_def)
next
  case False
  define b where "b = bitlen n"
  have b: "0 < b" "b \<le> 53"
    using False assms by (simp_all add: b_def bitlen_pos bitlen_le)
  define j where "j = 53 - b"
  have q1: "(1::rat) \<le> of_nat n" using False by simp
  have "ilog2 \<bar>of_nat n\<bar> = int b - 1"
    using q1 by (simp add: ilog2_def b_def)
  moreover have "max (int b - 1) (- 1022) - 52 = - int j"
    using b by (simp add: j_def)
  ultimately have ulp: "pow2 (max (ilog2 \<bar>of_nat n\<bar>) (- 1022) - 52) = 1 / 2 ^ j"
    by (simp add: pow2_def)
  have "\<bar>of_nat n :: rat\<bar> / (1 / 2 ^ j) = of_int (int (n * 2 ^ j))"
    by simp
  then have r: "of_int (round_half_even (\<bar>of_nat n :: rat\<bar> / (1 / 2 ^ j))) * (1 / 2 ^ j) = (of_nat n :: rat)"
    by (simp only: round_half_even_int) simp
  have "(of_nat n :: rat) < 2 ^ 53"
    using assms by (metis of_nat_less_iff of_nat_numeral of_nat_power)
  also have "\<dots> < 2 ^ 1024" by simp
  finally have small: "\<not> pow2 1024 \<le> (of_nat n :: rat)" by (simp add: pow2_def)
  show ?thesis
    using False small unfolding round_double_def Let_def ulp r by simp
qed

lemma round_double_minus_nat:
  assumes "n < 2 ^ 53"
  shows "round_double (- of_nat n) = Finite (- of_nat n)"
proof (cases "n = 0")
  case True
  then show ?thesis by (simp add: round_double_def)
next
  case False
  from round_double_nat [OF assms] False show ?thesis
    unfolding round_double_def Let_def by (simp split: if_splits)
qed

lemma ends_number_simps:
  assumes "ends_number c"
  shows "\<not> is_digit c" "c \<noteq> CHR ''.''" "c \<noteq> CHR ''e''" "c \<noteq> CHR ''E''"
  using assms by (auto simp: ends_number_def is_digit_def)

lemma fraction_json_end:
  assumes "ends_number c"
  shows "fraction_json ds (c # rest) = Some (of_nat (nat_of_digits ds), c # rest)"
  using ends_number_simps [OF assms]
  by (simp add: fraction_json_def exponent_json_def decimal_value_def pow10_def)

lemma dropWhile_digits_of:
  "\<not> is_digit c \<Longrightarrow> dropWhile is_digit (digits_of n @ c # rest) = c # rest"
  using digits_of_digits [of n] by (simp add: list_all_iff)

lemma unsigned_json_digits:
  assumes "ends_number c"
  shows "unsigned_json (digits_of n @ c # rest) = Some (of_nat n, c # rest)"
proof -
  obtain d ds where d: "digits_of n = d # ds"
    using digits_of_not_Nil [of n] by (cases "digits_of n") auto
  with digits_of_digits [of n] have dig: "is_digit d" by simp
  show ?thesis
  proof (cases "n = 0")
    case True
    then show ?thesis
      using fraction_json_end [OF assms, of "''0''" rest]
      by (simp add: unsigned_json_def digits_of_0 nat_of_digits_def digit_val_def)
  next
    case False
    with hd_digits_of [of n] d have "d \<noteq> CHR ''0''" by simp
    moreover have "takeWhile is_digit ((d # ds) @ c # rest) = d # ds"
      "dropWhile is_digit ((d # ds) @ c # rest) = c # rest"
      using takeWhile_digits_of [OF ends_number_simps(1) [OF assms], of n rest]
        dropWhile_digits_of [OF ends_number_simps(1) [OF assms], of n rest]
      by (simp_all only: d)
    ultimately show ?thesis
      using dig fraction_json_end [OF assms, of "d # ds" rest] nat_of_digits_of [of n]
      by (simp add: unsigned_json_def d del: takeWhile.simps dropWhile.simps)
  qed
qed

lemma json_number_digits:
  assumes "ends_number c"
  shows "json_number (digits_of n @ c # rest) = Some (round_double (of_nat n), c # rest)"
proof -
  obtain d ds where d: "digits_of n = d # ds"
    using digits_of_not_Nil [of n] by (cases "digits_of n") auto
  with digits_of_digits [of n] have "is_digit d" by simp
  then have "d \<noteq> CHR ''-''" by (auto simp: is_digit_def)
  with unsigned_json_digits [OF assms, of n rest] show ?thesis
    by (simp add: json_number_def d)
qed

lemma json_number_minus_digits:
  assumes "ends_number c"
  shows "json_number (CHR ''-'' # digits_of n @ c # rest) = Some (round_double (- of_nat n), c # rest)"
  using unsigned_json_digits [OF assms, of n rest] by (simp add: json_number_def)

lemma valid_time_small: "valid_time t \<Longrightarrow> nat \<bar>t\<bar> < 2 ^ 53"
  by (simp add: valid_time_def)

lemma json_number_int_text:
  assumes "ends_number c" and "valid_time t"
  shows "json_number (int_text t @ c # rest) = Some (Finite (of_int t), c # rest)"
proof (cases "t < 0")
  case True
  define n where "n = nat (- t)"
  have t: "t = - int n" using True by (simp add: n_def)
  have n: "n < 2 ^ 53" using assms(2) True by (simp add: valid_time_def n_def)
  have tx: "int_text t = CHR ''-'' # digits_of n"
    using True by (simp add: int_text_def n_def)
  have val: "(of_int t :: rat) = - of_nat n" by (simp add: t)
  show ?thesis
    using json_number_minus_digits [OF assms(1), of n rest] round_double_minus_nat [OF n]
    unfolding tx val by simp
next
  case False
  define n where "n = nat t"
  have t: "t = int n" using False by (simp add: n_def)
  have n: "n < 2 ^ 53" using assms(2) False by (simp add: valid_time_def n_def)
  have tx: "int_text t = digits_of n"
    using False by (simp add: int_text_def n_def)
  have val: "(of_int t :: rat) = of_nat n" by (simp add: t)
  show ?thesis
    using json_number_digits [OF assms(1), of n rest] round_double_nat [OF n]
    unfolding tx val by simp
qed

lemma number_text_int:
  assumes "valid_time t"
  shows "number_text (Finite (of_int t)) = int_text t"
proof -
  have small: "\<bar>of_int t :: rat\<bar> < 2 ^ 53"
  proof -
    have "\<bar>t\<bar> < 2 ^ 53" using assms by (simp add: valid_time_def)
    then have "(of_int \<bar>t\<bar> :: rat) < of_int (2 ^ 53)" by (simp only: of_int_less_iff)
    then show ?thesis by simp
  qed
  consider "t = 0" | "t < 0" | "0 < t" by linarith
  then show ?thesis
  proof cases
    case 1
    then show ?thesis
      by (simp add: number_text_def Number_toString_def int_text_def digits_of_0)
  next
    case 2
    then have "- (of_int t :: rat) = of_int (- t)" "nat \<bar>t\<bar> = nat (- t)" by simp_all
    with 2 small show ?thesis
      by (simp add: number_text_def Number_toString_def int_text_def positive_toString_def
          del: of_int_minus)
  next
    case 3
    with small show ?thesis
      by (simp add: number_text_def Number_toString_def int_text_def positive_toString_def)
  qed
qed

subsection \<open>The list that was written is read back\<close>

lemma skip_ws_Cons: "\<not> json_ws c \<Longrightarrow> skip_ws (c # s) = c # s"
  by (simp add: skip_ws_def)

lemma quote_append: "quote s @ rest = CHR 0x22 # concat (map escape_char s) @ CHR 0x22 # rest"
  by (simp add: quote_def)

lemma parse_value_string: "parse_value (Suc n) (quote s @ rest) = Some (JStr s, rest)"
  by (simp add: quote_append skip_ws_Cons json_ws_def string_items_quoted decode_items_of)

lemma int_text_Cons: "\<exists>a u. int_text t = a # u \<and> a \<in> set ''-0123456789''"
proof (cases "t < 0")
  case True
  then show ?thesis by (simp add: int_text_def)
next
  case False
  obtain d ds where d: "digits_of (nat \<bar>t\<bar>) = d # ds"
    using digits_of_not_Nil [of "nat \<bar>t\<bar>"] by (cases "digits_of (nat \<bar>t\<bar>)") auto
  with digits_of_digits [of "nat \<bar>t\<bar>"] have "is_digit d" by simp
  then have "d \<in> set ''-0123456789''" by (auto simp: is_digit_def)
  with False d show ?thesis by (simp add: int_text_def)
qed

lemma number_start:
  assumes "a \<in> set ''-0123456789''"
  shows "\<not> json_ws a \<and> a \<noteq> CHR ''{'' \<and> a \<noteq> CHR ''['' \<and> a \<noteq> CHR 0x22 \<and>
         a \<noteq> CHR ''t'' \<and> a \<noteq> CHR ''f'' \<and> a \<noteq> CHR ''n''"
  using assms by (auto simp: json_ws_def)

lemma parse_value_int:
  assumes "ends_number c" and "valid_time t"
  shows "parse_value (Suc n) (int_text t @ c # rest) = Some (JNum (Finite (of_int t)), c # rest)"
proof -
  obtain a u where a: "int_text t = a # u" "a \<in> set ''-0123456789''"
    using int_text_Cons by blast
  from json_number_int_text [OF assms, of rest]
  have "json_number (a # u @ c # rest) = Some (Finite (of_int t), c # rest)"
    by (simp add: a(1))
  with number_start [OF a(2)] show ?thesis
    by (simp add: a(1) skip_ws_Cons)
qed

lemma parse_members_string:
  "parse_members (Suc (Suc n)) acc (quote k @ CHR '':'' # quote v @ CHR '','' # rest) =
     parse_members (Suc n) (obj_put k (JStr v) acc) rest"
proof -
  have "parse_value (Suc n) (quote v @ CHR '','' # rest) = Some (JStr v, CHR '','' # rest)"
    by (rule parse_value_string)
  then show ?thesis
    by (simp add: quote_append [of k] skip_ws_Cons json_ws_def string_items_quoted decode_items_of
        del: parse_value.simps)
qed


lemma parse_members_int:
  assumes "valid_time t"
  shows "parse_members (Suc (Suc n)) acc (quote k @ CHR '':'' # int_text t @ CHR ''}'' # rest) =
           Some (obj_put k (JNum (Finite (of_int t))) acc, rest)"
proof -
  have "ends_number CHR ''}''" by (simp add: ends_number_def)
  from parse_value_int [OF this assms, of n rest] show ?thesis
    by (simp add: quote_append [of k] skip_ws_Cons json_ws_def string_items_quoted decode_items_of
        del: parse_value.simps)
qed

lemma obj_put_new:
  assumes "k \<notin> set (map fst m)" and "array_index k = None"
  shows "obj_put k v m = m @ [(k, v)]"
  using assms by (simp add: obj_put_def)

lemma not_index: "array_index ''symbol'' = None" "array_index ''name'' = None" "array_index ''timestamp'' = None"
  by (simp_all add: array_index_def is_digit_def)

lemma entry_text:
  assumes "valid_time t"
  shows "JSON_stringify (new_entry s n t) =
           CHR ''{'' # quote ''symbol'' @ CHR '':'' # quote s @ CHR '','' #
           quote ''name'' @ CHR '':'' # quote n @ CHR '','' #
           quote ''timestamp'' @ CHR '':'' # int_text t @ ''}''"
  by (simp add: new_entry_def number_text_int [OF assms])

lemma parse_value_object:
  "parse_value (Suc n) (CHR ''{'' # quote k @ rest) =
     map_option (\<lambda>(m, r). (JObj m, r)) (parse_members n [] (quote k @ rest))"
  by (simp add: skip_ws_Cons json_ws_def quote_append del: parse_members.simps)

lemma parse_value_entry:
  assumes "valid_time t" and "5 \<le> f"
  shows "parse_value f (JSON_stringify (new_entry s n t) @ rest) = Some (new_entry s n t, rest)"
proof -
  from assms(2) obtain g where f: "f = Suc (Suc (Suc (Suc (Suc g))))"
    by (metis le_Suc_ex numeral_eq_Suc pred_numeral_simps(2,3) semiring_norm(26,27) plus_nat.simps(2))
  have m: "parse_members (Suc (Suc (Suc (Suc g)))) []
      (quote ''symbol'' @ CHR '':'' # quote s @ CHR '','' #
           quote ''name'' @ CHR '':'' # quote n @ CHR '','' #
           quote ''timestamp'' @ CHR '':'' # int_text t @ CHR ''}'' # rest) = Some (
      [(''symbol'', JStr s), (''name'', JStr n), (''timestamp'', JNum (Finite (of_int t)))], rest)"
    by (simp only: parse_members_string parse_members_int [OF assms(1)])
       (simp add: obj_put_new not_index)
  have "parse_value f (CHR ''{'' # quote ''symbol'' @ CHR '':'' # quote s @ CHR '','' #
           quote ''name'' @ CHR '':'' # quote n @ CHR '','' #
           quote ''timestamp'' @ CHR '':'' # int_text t @ CHR ''}'' # rest) = Some (new_entry s n t, rest)"
    unfolding f by (simp only: parse_value_object m) (simp add: new_entry_def)
  then show ?thesis
    by (simp add: entry_text [OF assms(1)])
qed

lemma recent_text_Cons: "\<exists>u. JSON_stringify (recent_json r) = CHR ''{'' # u"
  by (simp add: recent_json_def new_entry_def)

lemma parse_elements_recents:
  assumes "valid_times rs" and "rs \<noteq> []" and "length rs + 5 \<le> f"
  shows "parse_elements f (join (map (\<lambda>r. JSON_stringify (recent_json r)) rs) @ CHR '']'' # rest) =
           Some (map recent_json rs, rest)"
  using assms
proof (induction rs arbitrary: f)
  case Nil
  then show ?case by simp
next
  case (Cons r rs)
  from Cons.prems(3) obtain g where f: "f = Suc g" "5 \<le> g" "length rs + 5 \<le> g"
    by (cases f) auto
  from Cons.prems(1) have v: "valid_time (timestamp r)" "valid_times rs"
    by (simp_all add: valid_times_def)
  show ?case
  proof (cases rs)
    case Nil
    have "parse_value g (JSON_stringify (recent_json r) @ CHR '']'' # rest) =
            Some (recent_json r, CHR '']'' # rest)"
      unfolding recent_json_def by (rule parse_value_entry [OF v(1) f(2)])
    with Nil f(1) show ?thesis
      by (simp add: skip_ws_Cons json_ws_def del: parse_value.simps)
  next
    case (Cons r' rs')
    let ?tail = "join (map (\<lambda>r. JSON_stringify (recent_json r)) rs) @ CHR '']'' # rest"
    have 1: "parse_value g (JSON_stringify (recent_json r) @ CHR '','' # ?tail) =
            Some (recent_json r, CHR '','' # ?tail)"
      unfolding recent_json_def by (rule parse_value_entry [OF v(1) f(2)])
    have 2: "parse_elements g ?tail = Some (map recent_json rs, rest)"
      using Cons.IH [OF v(2) _ f(3)] Cons by simp
    from 1 2 Cons f(1) show ?thesis
      by (simp add: skip_ws_Cons json_ws_def del: parse_value.simps parse_elements.simps)
         (simp add: skip_ws_Cons json_ws_def del: parse_value.simps)
  qed
qed

lemma length_recent_text: "4 \<le> length (JSON_stringify (recent_json r))"
  by (simp add: recent_json_def new_entry_def quote_def)

lemma length_join_recents:
  "rs \<noteq> [] \<Longrightarrow> length rs + 3 \<le> length (join (map (\<lambda>r. JSON_stringify (recent_json r)) rs))"
proof (induction rs)
  case Nil
  then show ?case by simp
next
  case (Cons r rs)
  show ?case
  proof (cases rs)
    case Nil
    with length_recent_text [of r] show ?thesis by simp
  next
    case (Cons r' rs')
    with Cons.IH length_recent_text [of r] show ?thesis by simp
  qed
qed

lemma parse_stringify_recents:
  assumes "valid_times rs"
  shows "JSON_parse (JSON_stringify (JArr (map recent_json rs))) = Inr (JArr (map recent_json rs))"
proof (cases rs)
  case Nil
  then show ?thesis
    by (simp add: JSON_parse_def skip_ws_def json_ws_def numeral_eq_Suc)
next
  case (Cons r rs')
  let ?body = "join (map (\<lambda>r. JSON_stringify (recent_json r)) rs)"
  have ne: "rs \<noteq> []" using Cons by simp
  obtain u where u: "?body = CHR ''{'' # u"
    using recent_text_Cons [of r] Cons by (cases rs') auto
  have len: "length rs + 5 \<le> 2 * length (CHR ''['' # ?body @ '']'')"
    using length_join_recents [OF ne] by simp
  have "parse_elements (2 * length (CHR ''['' # ?body @ '']'')) (?body @ CHR '']'' # []) =
      Some (map recent_json rs, [])"
    by (rule parse_elements_recents [OF assms ne len])
  then have "parse_value (Suc (2 * length (CHR ''['' # ?body @ '']''))) (CHR ''['' # ?body @ '']'') =
      Some (JArr (map recent_json rs), [])"
    unfolding u by (simp add: skip_ws_Cons json_ws_def del: parse_elements.simps)
  then show ?thesis
    by (simp add: JSON_parse_def skip_ws_def comp_def del: parse_value.simps)
qed

subsection \<open>The parser's bound is enough\<close>

lemma length_skip_ws: "length (skip_ws s) \<le> length s"
  by (simp add: skip_ws_def length_dropWhile_le)

lemma skip_ws_Cons_length: "skip_ws s = c # t \<Longrightarrow> length t < length s"
  using length_skip_ws [of s] by simp

lemma string_items_shorter: "string_items s = Some (xs, r) \<Longrightarrow> length r < length s"
proof (induction s arbitrary: xs rule: string_items.induct)
  case 1
  then show ?case by simp
next
  case (2 c s)
  show ?case
  proof (cases "c = CHR 0x22")
    case True
    with 2(4) show ?thesis by simp
  next
    case q: False
    show ?thesis
    proof (cases "c = CHR 0x5C")
      case True
      with 2(4) q obtain e t where s: "s = e # t" by (cases s) auto
      show ?thesis
      proof (cases "e = CHR ''u''")
        case u: True
        with 2(4) q True s obtain n ys where "hex4 t = Some n" "string_items (drop 4 t) = Some (ys, r)"
          by (auto simp: add_item_def split: option.splits)
        with 2(1) [OF q True s u] have "length r < length (drop 4 t)" by simp
        with s show ?thesis by simp
      next
        case False
        with 2(4) q True s obtain x ys where "simple_escape e = Some x" "string_items t = Some (ys, r)"
          by (auto simp: add_item_def split: option.splits)
        with 2(2) [OF q True s False] have "length r < length t" by simp
        with s show ?thesis by simp
      qed
    next
      case False
      with 2(4) q obtain ys where "\<not> (of_char c :: nat) < 32" "string_items s = Some (ys, r)"
        by (auto simp: add_item_def split: if_splits)
      with 2(3) [OF q False] show ?thesis by simp
    qed
  qed
qed

lemma exponent_digits_json_shorter:
  "exponent_digits_json ds k sign s = Some (q, r) \<Longrightarrow> length r \<le> length s"
  by (auto simp: exponent_digits_json_def length_dropWhile_le split: if_splits)

lemma exponent_json_shorter: "exponent_json ds k s = Some (q, r) \<Longrightarrow> length r \<le> length s"
  by (auto simp: exponent_json_def split: list.splits if_splits
      dest!: exponent_digits_json_shorter)

lemma fraction_json_shorter: "fraction_json ip s = Some (q, r) \<Longrightarrow> length r \<le> length s"
proof (cases s)
  case Nil
  assume "fraction_json ip s = Some (q, r)"
  with Nil show ?thesis by (auto simp: fraction_json_def dest!: exponent_json_shorter)
next
  case (Cons c t)
  assume a: "fraction_json ip s = Some (q, r)"
  show ?thesis
  proof (cases "c = CHR ''.''")
    case True
    with a Cons have "exponent_json (ip @ takeWhile is_digit t) (length (takeWhile is_digit t))
        (dropWhile is_digit t) = Some (q, r)"
      by (simp add: fraction_json_def split: if_splits)
    from exponent_json_shorter [OF this] have "length r \<le> length t"
      using length_dropWhile_le [of is_digit t] by simp
    with Cons show ?thesis by simp
  next
    case False
    with a Cons have "exponent_json ip 0 s = Some (q, r)" by (simp add: fraction_json_def)
    then show ?thesis by (rule exponent_json_shorter)
  qed
qed

lemma unsigned_json_shorter: "unsigned_json s = Some (q, r) \<Longrightarrow> length r < length s"
proof (cases s)
  case Nil
  assume "unsigned_json s = Some (q, r)"
  with Nil show ?thesis by (simp add: unsigned_json_def)
next
  case (Cons c t)
  assume a: "unsigned_json s = Some (q, r)"
  show ?thesis
  proof (cases "c = CHR ''0''")
    case True
    with a Cons have "fraction_json ''0'' t = Some (q, r)" by (simp add: unsigned_json_def)
    from fraction_json_shorter [OF this] Cons show ?thesis by simp
  next
    case False
    with a Cons have d: "is_digit c" and
      "fraction_json (takeWhile is_digit s) (dropWhile is_digit s) = Some (q, r)"
      by (simp_all add: unsigned_json_def split: if_splits)
    from fraction_json_shorter [OF this(2)] have "length r \<le> length (dropWhile is_digit s)" .
    also have "\<dots> \<le> length t" using Cons d by (simp add: length_dropWhile_le)
    finally show ?thesis using Cons by simp
  qed
qed

lemma json_number_shorter: "json_number s = Some (x, r) \<Longrightarrow> length r < length s"
  by (cases s) (auto simp: json_number_def split: if_splits dest!: unsigned_json_shorter)

lemma parse_shorter_all:
  "(\<forall>s v r. parse_value n s = Some (v, r) \<longrightarrow> length r < length s) \<and>
   (\<forall>s vs r. parse_elements n s = Some (vs, r) \<longrightarrow> length r < length s) \<and>
   (\<forall>acc s m r. parse_members n acc s = Some (m, r) \<longrightarrow> length r < length s)"
proof (induction n)
  case 0
  show ?case by simp
next
  case (Suc n)
  then have IHv: "\<And>s v r. parse_value n s = Some (v, r) \<Longrightarrow> length r < length s"
    and IHe: "\<And>s vs r. parse_elements n s = Some (vs, r) \<Longrightarrow> length r < length s"
    and IHm: "\<And>acc s m r. parse_members n acc s = Some (m, r) \<Longrightarrow> length r < length s"
    by blast+
  have v: "length r < length s" if a: "parse_value (Suc n) s = Some (v, r)" for s v r
  proof -
    from a obtain c t where ct: "skip_ws s = c # t" by (cases "skip_ws s") auto
    then have lt: "length t < length s" by (rule skip_ws_Cons_length)
    consider (obj) "c = CHR ''{''" | (arr) "c = CHR ''[''" "c \<noteq> CHR ''{''"
      | (str) "c = CHR 0x22" "c \<noteq> CHR ''{''" "c \<noteq> CHR ''[''"
      | (other) "c \<noteq> CHR 0x22" "c \<noteq> CHR ''{''" "c \<noteq> CHR ''[''" by blast
    then show ?thesis
    proof cases
      case obj
      with a ct obtain d u where du: "skip_ws t = d # u" by (cases "skip_ws t") auto
      then have lu: "length u < length t" by (rule skip_ws_Cons_length)
      show ?thesis
      proof (cases "d = CHR ''}''")
        case True
        with a ct obj du have "r = u" by simp
        with lu lt show ?thesis by simp
      next
        case False
        with a ct obj du obtain m where "parse_members n [] t = Some (m, r)" by auto
        from IHm [OF this] lt show ?thesis by simp
      qed
    next
      case arr
      with a ct obtain d u where du: "skip_ws t = d # u" by (cases "skip_ws t") auto
      then have lu: "length u < length t" by (rule skip_ws_Cons_length)
      show ?thesis
      proof (cases "d = CHR '']''")
        case True
        with a ct arr du have "r = u" by simp
        with lu lt show ?thesis by simp
      next
        case False
        with a ct arr du obtain xs where "parse_elements n t = Some (xs, r)" by auto
        from IHe [OF this] lt show ?thesis by simp
      qed
    next
      case str
      with a ct obtain xs where "string_items t = Some (xs, r)" by auto
      from string_items_shorter [OF this] lt show ?thesis by simp
    next
      case other
      with a ct have "r = drop 3 t \<or> r = drop 4 t \<or> (\<exists>x. json_number (c # t) = Some (x, r))"
        by (auto split: if_splits)
      then show ?thesis
      proof (elim disjE exE)
        fix x assume "json_number (c # t) = Some (x, r)"
        from json_number_shorter [OF this] lt show ?thesis by simp
      qed (use lt in simp_all)
    qed
  qed
  have e: "length r < length s" if a: "parse_elements (Suc n) s = Some (vs, r)" for s vs r
  proof -
    from a obtain x r0 where x: "parse_value n s = Some (x, r0)"
      by (cases "parse_value n s") auto
    from IHv [OF x] have l0: "length r0 < length s" .
    from a x obtain c t where ct: "skip_ws r0 = c # t" by (cases "skip_ws r0") auto
    then have lt: "length t < length r0" by (rule skip_ws_Cons_length)
    show ?thesis
    proof (cases "c = CHR '',''")
      case True
      with a x ct obtain ys where "parse_elements n t = Some (ys, r)" by auto
      from IHe [OF this] lt l0 show ?thesis by simp
    next
      case False
      with a x ct have "r = t" by (auto split: if_splits)
      with lt l0 show ?thesis by simp
    qed
  qed
  have m: "length r < length s" if a: "parse_members (Suc n) acc s = Some (m, r)" for acc s m r
  proof -
    from a obtain q t where qt: "skip_ws s = q # t" by (cases "skip_ws s") auto
    then have lt: "length t < length s" by (rule skip_ws_Cons_length)
    from a qt have q: "q = CHR 0x22" by (auto split: if_splits)
    with a qt obtain ks r1 where k: "string_items t = Some (ks, r1)"
      by (cases "string_items t") auto
    from string_items_shorter [OF k] have l1: "length r1 < length t" .
    from a qt q k obtain c u where cu: "skip_ws r1 = c # u" by (cases "skip_ws r1") auto
    then have lu: "length u < length r1" by (rule skip_ws_Cons_length)
    from a qt q k cu have c: "c = CHR '':''" by (auto split: if_splits)
    with a qt q k cu obtain x r2 where x: "parse_value n u = Some (x, r2)"
      by (cases "parse_value n u") auto
    from IHv [OF x] have l2: "length r2 < length u" .
    from a qt q k cu c x obtain d w where dw: "skip_ws r2 = d # w" by (cases "skip_ws r2") auto
    then have lw: "length w < length r2" by (rule skip_ws_Cons_length)
    show ?thesis
    proof (cases "d = CHR '',''")
      case True
      with a qt q k cu c x dw have "parse_members n (obj_put (decode_items ks) x acc) w = Some (m, r)"
        by simp
      from IHm [OF this] lw l2 lu l1 lt show ?thesis by simp
    next
      case False
      with a qt q k cu c x dw have "r = w" by (auto split: if_splits)
      with lw l2 lu l1 lt show ?thesis by simp
    qed
  qed
  from v e m show ?case by blast
qed

lemma parse_shorter:
  assumes "parse_value n s = Some (v, r)"
  shows "length r < length s"
  using parse_shorter_all [of n] assms by blast

lemma parse_fuel_all:
  "(\<forall>s. 2 * length s < n \<longrightarrow> parse_value (Suc n) s = parse_value n s) \<and>
   (\<forall>s. 2 * length s + 1 < n \<longrightarrow> parse_elements (Suc n) s = parse_elements n s) \<and>
   (\<forall>acc s. 2 * length s + 1 < n \<longrightarrow> parse_members (Suc n) acc s = parse_members n acc s)"
proof (induction n)
  case 0
  show ?case by simp
next
  case (Suc n)
  then have IHv: "\<And>s. 2 * length s < n \<Longrightarrow> parse_value (Suc n) s = parse_value n s"
    and IHe: "\<And>s. 2 * length s + 1 < n \<Longrightarrow> parse_elements (Suc n) s = parse_elements n s"
    and IHm: "\<And>acc s. 2 * length s + 1 < n \<Longrightarrow> parse_members (Suc n) acc s = parse_members n acc s"
    by blast+
  have v: "parse_value (Suc (Suc n)) s = parse_value (Suc n) s" if a: "2 * length s < Suc n" for s
  proof (cases "skip_ws s")
    case Nil
    then show ?thesis by simp
  next
    case (Cons c t)
    then have "length t < length s" by (rule skip_ws_Cons_length)
    with a have "2 * length t + 1 < n" by simp
    then have eq: "parse_elements (Suc n) t = parse_elements n t"
      "parse_members (Suc n) [] t = parse_members n [] t"
      by (simp_all only: IHe IHm)
    show ?thesis
      unfolding parse_value.simps(2) [of "Suc n"] parse_value.simps(2) [of n] Cons list.case eq
      by (rule refl)
  qed
  have e: "parse_elements (Suc (Suc n)) s = parse_elements (Suc n) s" if a: "2 * length s + 1 < Suc n" for s
  proof -
    from a have v1: "parse_value (Suc n) s = parse_value n s" by (simp only: IHv)
    show ?thesis
    proof (cases "parse_value n s")
      case None
      with v1 show ?thesis by simp
    next
      case (Some p)
      obtain x r0 where p: "p = (x, r0)" by (cases p)
      from parse_shorter [OF Some [unfolded p]] have l0: "length r0 < length s" .
      show ?thesis
      proof (cases "skip_ws r0")
        case Nil
        with v1 Some p show ?thesis by simp
      next
        case (Cons c t)
        then have "length t < length r0" by (rule skip_ws_Cons_length)
        with l0 a have "2 * length t + 1 < n" by simp
        then have "parse_elements (Suc n) t = parse_elements n t" by (simp only: IHe)
        with v1 Some p Cons show ?thesis
          by (simp del: parse_elements.simps parse_value.simps add: parse_elements.simps(2) [of "Suc n" s]
              parse_elements.simps(2) [of n s])
      qed
    qed
  qed
  have m: "parse_members (Suc (Suc n)) acc s = parse_members (Suc n) acc s" if a: "2 * length s + 1 < Suc n" for acc s
  proof (cases "skip_ws s")
    case Nil
    then show ?thesis by simp
  next
    case qt: (Cons q t)
    then have lt: "length t < length s" by (rule skip_ws_Cons_length)
    show ?thesis
    proof (cases "string_items t")
      case None
      with qt show ?thesis by simp
    next
      case (Some p)
      obtain ks r1 where p: "p = (ks, r1)" by (cases p)
      from string_items_shorter [OF Some [unfolded p]] have l1: "length r1 < length t" .
      show ?thesis
      proof (cases "skip_ws r1")
        case Nil
        with qt Some p show ?thesis by simp
      next
        case cu: (Cons c u)
        then have lu: "length u < length r1" by (rule skip_ws_Cons_length)
        with l1 lt a have "2 * length u < n" by simp
        then have v1: "parse_value (Suc n) u = parse_value n u" by (simp only: IHv)
        show ?thesis
        proof (cases "parse_value n u")
          case None
          with v1 qt Some p cu show ?thesis
            by (simp del: parse_value.simps)
        next
          case x: (Some p2)
          obtain x2 r2 where p2: "p2 = (x2, r2)" by (cases p2)
          from parse_shorter [OF x [unfolded p2]] have l2: "length r2 < length u" .
          show ?thesis
          proof (cases "skip_ws r2")
            case Nil
            with v1 qt Some p cu x p2 show ?thesis
              by (simp del: parse_value.simps)
          next
            case dw: (Cons d w)
            then have "length w < length r2" by (rule skip_ws_Cons_length)
            with l2 lu l1 lt a have "2 * length w + 1 < n" by simp
            then have "parse_members (Suc n) (obj_put (decode_items ks) x2 acc) w =
                parse_members n (obj_put (decode_items ks) x2 acc) w" by (simp only: IHm)
            with v1 qt Some p cu x p2 dw show ?thesis
              by (simp del: parse_value.simps parse_members.simps
                  add: parse_members.simps(2) [of "Suc n" acc s] parse_members.simps(2) [of n acc s])
          qed
        qed
      qed
    qed
  qed
  from v e m show ?case by blast
qed

text \<open>
  With more than twice the length of the text as its bound, the parser gives what it gives
  with any larger bound: \<open>JSON_parse\<close> never fails for want of it.
\<close>

lemma parse_value_fuel:
  assumes "2 * length s < n"
  shows "parse_value (n + k) s = parse_value n s"
proof (induction k)
  case 0
  show ?case by simp
next
  case (Suc k)
  have "2 * length s < n + k" using assms by simp
  with parse_fuel_all [of "n + k"] have "parse_value (Suc (n + k)) s = parse_value (n + k) s"
    by blast
  with Suc show ?case by simp
qed

lemma JSON_parse_fuel:
  "JSON_parse s =
     (case parse_value (Suc (2 * length s) + k) s of
        None \<Rightarrow> Inl SyntaxError
      | Some (v, r) \<Rightarrow> if skip_ws r = [] then Inr v else Inl SyntaxError)"
  unfolding JSON_parse_def by (subst parse_value_fuel) simp_all

section \<open>Properties of the recents store\<close>

lemma other_symbol_recent: "other_symbol s (recent_json r) = Inr (RecentTicker.symbol r \<noteq> s)"
  by (auto simp: other_symbol_def recent_json_def new_entry_def)

lemma filter_recents:
  "js_filter (other_symbol s) (map recent_json rs) = Inr (map recent_json (others s rs))"
  by (induction rs) (simp_all add: other_symbol_recent others_def)

lemma without_symbol_recents:
  "without_symbol s (JArr (map recent_json rs)) = Inr (map recent_json (others s rs))"
  by (simp add: without_symbol_def filter_recents)

lemma new_entry_recent:
  "new_entry s n t = recent_json \<lparr>RecentTicker.symbol = s, RecentTicker.name = n, timestamp = t\<rparr>"
  by (simp add: recent_json_def)

lemma addToRecents_holds:
  assumes "holds st rs"
  shows "addToRecents s n t st =
           Inr (st(RECENTS_KEY \<mapsto> JSON_stringify (JArr (map recent_json (upsert s n t rs)))))"
  using assms
  by (simp add: addToRecents_def holds_def without_symbol_recents upsert_def MAX_RECENTS_def
      new_entry_recent take_map del: JSON_stringify.simps)

lemma removeRecent_holds:
  assumes "holds st rs"
  shows "removeRecent s st =
           Inr (st(RECENTS_KEY \<mapsto> JSON_stringify (JArr (map recent_json (others s rs)))))"
  using assms
  by (simp add: removeRecent_def holds_def without_symbol_recents del: JSON_stringify.simps)

lemma holds_written:
  assumes "valid_times rs"
  shows "holds (st(RECENTS_KEY \<mapsto> JSON_stringify (JArr (map recent_json rs)))) rs"
proof -
  have "JSON_stringify (JArr (map recent_json rs)) \<noteq> []" by simp
  then show ?thesis
    unfolding holds_def stored_recents_def
    by (simp add: parse_stringify_recents [OF assms] del: JSON_stringify.simps)
qed

lemma holds_empty: "holds Map.empty []"
  by (simp add: holds_def stored_recents_def)

lemma holds_cleared: "holds (st(RECENTS_KEY := None)) []"
  by (simp add: holds_def stored_recents_def)

lemma valid_times_others: "valid_times rs \<Longrightarrow> valid_times (others s rs)"
  by (simp add: valid_times_def others_def list_all_iff)

lemma valid_times_upsert: "valid_time t \<Longrightarrow> valid_times rs \<Longrightarrow> valid_times (upsert s n t rs)"
  by (auto simp: valid_times_def upsert_def others_def list_all_iff dest!: in_set_takeD)

lemma distinct_others: "distinct (map RecentTicker.symbol rs) \<Longrightarrow> distinct (map RecentTicker.symbol (others s rs))"
  by (simp add: others_def distinct_map_filter)

lemma distinct_upsert:
  assumes "distinct (map RecentTicker.symbol rs)"
  shows "distinct (map RecentTicker.symbol (upsert s n t rs))"
proof -
  have "distinct (map RecentTicker.symbol
          (\<lparr>RecentTicker.symbol = s, RecentTicker.name = n, timestamp = t\<rparr> # others s rs))"
    using distinct_others [OF assms, of s] by (auto simp: others_def)
  then show ?thesis
    unfolding upsert_def take_map [symmetric] by (rule distinct_take)
qed

lemma length_upsert: "length (upsert s n t rs) \<le> 10"
  by (simp add: upsert_def)

lemma length_others: "length (others s rs) \<le> length rs"
  by (simp add: others_def)

lemma addToRecents_reread:
  assumes "holds st rs" and "valid_times rs" and "valid_time t"
  shows "\<exists>st'. addToRecents s n t st = Inr st' \<and> holds st' (upsert s n t rs)"
  using addToRecents_holds [OF assms(1)] holds_written [OF valid_times_upsert [OF assms(3) assms(2)]]
  by simp

lemma removeRecent_reread:
  assumes "holds st rs" and "valid_times rs"
  shows "\<exists>st'. removeRecent s st = Inr st' \<and> holds st' (others s rs) \<and>
           (\<forall>k. k \<noteq> RECENTS_KEY \<longrightarrow> st' k = st k) \<and> st' RECENTS_KEY \<noteq> None"
  using removeRecent_holds [OF assms(1)] holds_written [OF valid_times_others [OF assms(2)]]
  by simp

text \<open>The invariant of the list: the symbols are distinct, there are at most ten entries.\<close>

lemma run_invariant:
  assumes "list_all valid_operation ops" and "holds st rs" and "valid_times rs"
    and "distinct (map RecentTicker.symbol rs)" and "length rs \<le> 10"
  shows "\<exists>st' rs'. run ops st = Inr st' \<and> holds st' rs' \<and> valid_times rs' \<and>
           distinct (map RecentTicker.symbol rs') \<and> length rs' \<le> 10"
  using assms
proof (induction ops arbitrary: st rs)
  case Nil
  then show ?case by auto
next
  case (Cons x ops)
  from Cons.prems(1) have v: "valid_operation x" "list_all valid_operation ops" by simp_all
  have "\<exists>st1 rs1. apply_operation x st = Inr st1 \<and> holds st1 rs1 \<and> valid_times rs1 \<and>
           distinct (map RecentTicker.symbol rs1) \<and> length rs1 \<le> 10"
  proof (cases x)
    case (Upsert s n t)
    with v(1) have t: "valid_time t" by simp
    from addToRecents_reread [OF Cons.prems(2,3) t, of s n] obtain st1
      where "addToRecents s n t st = Inr st1" "holds st1 (upsert s n t rs)" by blast
    with Upsert show ?thesis
      using valid_times_upsert [OF t Cons.prems(3)] distinct_upsert [OF Cons.prems(4)] length_upsert
      by auto
  next
    case (Remove s)
    from removeRecent_reread [OF Cons.prems(2,3), of s] obtain st1
      where "removeRecent s st = Inr st1" "holds st1 (others s rs)" by blast
    with Remove show ?thesis
      using valid_times_others [OF Cons.prems(3)] distinct_others [OF Cons.prems(4)]
        length_others [of s rs] Cons.prems(5)
      by (intro exI [of _ st1] exI [of _ "others s rs"]) auto
  next
    case Clear
    then show ?thesis
      using holds_cleared [of st]
      by (intro exI [of _ "st(RECENTS_KEY := None)"] exI [of _ "[]"])
         (simp add: clearRecents_def valid_times_def)
  qed
  then obtain st1 rs1 where 1: "apply_operation x st = Inr st1" "holds st1 rs1" "valid_times rs1"
    "distinct (map RecentTicker.symbol rs1)" "length rs1 \<le> 10" by blast
  from Cons.IH [OF v(2) 1(2-5)] 1(1) show ?case by simp
qed

lemma take_append_take: "take n (xs @ take n ys) = take n (xs @ ys)"
  by (simp add: min_def)

lemma others_new: "s \<notin> set (map RecentTicker.symbol rs) \<Longrightarrow> others s rs = rs"
  by (induction rs) (auto simp: others_def)

lemma symbols_take: "set (map f (take n xs)) \<subseteq> set (map f xs)"
  unfolding set_map by (rule image_mono) (rule set_take_subset)

lemma run_upserts:
  assumes "distinct (map fst es)" and "list_all (\<lambda>e. valid_time (snd (snd e))) es"
    and "holds st rs" and "valid_times rs"
    and "set (map fst es) \<inter> set (map RecentTicker.symbol rs) = {}" and "length rs \<le> 10"
  shows "\<exists>st'. run (map upsert_of es) st = Inr st' \<and> holds st' (take 10 (rev (map entry es) @ rs))"
  using assms
proof (induction es arbitrary: st rs)
  case Nil
  then show ?case by simp
next
  case (Cons e es)
  define rs1 where "rs1 = take 10 (entry e # rs)"
  have t: "valid_time (snd (snd e))" and ts: "list_all (\<lambda>e. valid_time (snd (snd e))) es"
    using Cons.prems(2) by simp_all
  have new: "fst e \<notin> set (map RecentTicker.symbol rs)"
    using Cons.prems(5) by auto
  have up: "upsert (fst e) (fst (snd e)) (snd (snd e)) rs = rs1"
    unfolding upsert_def others_new [OF new] entry_def rs1_def ..
  from addToRecents_reread [OF Cons.prems(3,4) t, of "fst e" "fst (snd e)"] obtain st1
    where 1: "addToRecents (fst e) (fst (snd e)) (snd (snd e)) st = Inr st1" "holds st1 rs1"
    unfolding up by blast
  have v1: "valid_times rs1"
    using valid_times_upsert [OF t Cons.prems(4), of "fst e" "fst (snd e)"] unfolding up .
  have d: "distinct (map fst es)" "fst e \<notin> set (map fst es)"
    using Cons.prems(1) by simp_all
  have "set (map RecentTicker.symbol rs1) \<subseteq> set (map RecentTicker.symbol (entry e # rs))"
    unfolding rs1_def by (rule symbols_take)
  moreover have "set (map RecentTicker.symbol (entry e # rs)) = insert (fst e) (set (map RecentTicker.symbol rs))"
    by (simp add: entry_def)
  ultimately have sub: "set (map RecentTicker.symbol rs1) \<subseteq> insert (fst e) (set (map RecentTicker.symbol rs))"
    by simp
  have disj: "set (map fst es) \<inter> set (map RecentTicker.symbol rs1) = {}"
  proof (rule ccontr)
    assume "set (map fst es) \<inter> set (map RecentTicker.symbol rs1) \<noteq> {}"
    then obtain x where x: "x \<in> set (map fst es)" "x \<in> set (map RecentTicker.symbol rs1)" by blast
    from x(2) sub have "x = fst e \<or> x \<in> set (map RecentTicker.symbol rs)" by blast
    then show False
    proof
      assume "x = fst e"
      with x(1) d(2) show False by simp
    next
      assume "x \<in> set (map RecentTicker.symbol rs)"
      moreover have "set (map fst es) \<inter> set (map RecentTicker.symbol rs) = {}"
        using Cons.prems(5) by simp
      ultimately show False using x(1) by (simp only: disjoint_iff)
    qed
  qed
  have len: "length rs1 \<le> 10" unfolding rs1_def by simp
  from Cons.IH [OF d(1) ts 1(2) v1 disj len] obtain st' where 2: "run (map upsert_of es) st1 = Inr st'"
    "holds st' (take 10 (rev (map entry es) @ rs1))" by blast
  have eq: "rev (map entry es) @ entry e # rs = rev (map entry (e # es)) @ rs" by simp
  have h: "take 10 (rev (map entry es) @ rs1) = take 10 (rev (map entry (e # es)) @ rs)"
    unfolding rs1_def take_append_take eq ..
  have r: "run (map upsert_of (e # es)) st = run (map upsert_of es) st1"
    using 1(1) by (simp add: upsert_of_def [of e])
  show ?case
    unfolding r h [symmetric] using 2 by blast
qed

text \<open>
  C1. On a store holding a list, \<open>addToRecents\<close> writes the list without the entries of
  the given symbol, with the new entry put first and cut to its first ten entries; read
  again, the store holds that list. Upserting AAPL, MSFT and AAPL again on the empty store
  leaves AAPL, with the time of the third call, before MSFT.
\<close>

theorem addToRecents_upsert:
  "(holds st rs \<longrightarrow>
      addToRecents s n t st =
        Inr (st(RECENTS_KEY \<mapsto> JSON_stringify (JArr (map recent_json
          (take 10 (\<lparr>RecentTicker.symbol = s, RecentTicker.name = n, timestamp = t\<rparr> #
                    filter (\<lambda>r. RecentTicker.symbol r \<noteq> s) rs))))))) \<and>
   (holds st rs \<and> valid_times rs \<and> valid_time t \<longrightarrow>
      (\<exists>st'. addToRecents s n t st = Inr st' \<and>
         holds st' (take 10 (\<lparr>RecentTicker.symbol = s, RecentTicker.name = n, timestamp = t\<rparr> #
                    filter (\<lambda>r. RecentTicker.symbol r \<noteq> s) rs)))) \<and>
   (valid_time t1 \<and> valid_time t2 \<and> valid_time t3 \<longrightarrow>
      (\<exists>st'. run [Upsert ''AAPL'' ''Apple Inc.'' t1, Upsert ''MSFT'' ''Microsoft'' t2,
                   Upsert ''AAPL'' ''Apple Inc.'' t3] Map.empty = Inr st' \<and>
         holds st' [\<lparr>RecentTicker.symbol = ''AAPL'', RecentTicker.name = ''Apple Inc.'', timestamp = t3\<rparr>,
                    \<lparr>RecentTicker.symbol = ''MSFT'', RecentTicker.name = ''Microsoft'', timestamp = t2\<rparr>]))"
proof (intro conjI impI)
  assume "holds st rs"
  from addToRecents_holds [OF this, of s n t]
  show "addToRecents s n t st =
        Inr (st(RECENTS_KEY \<mapsto> JSON_stringify (JArr (map recent_json
          (take 10 (\<lparr>RecentTicker.symbol = s, RecentTicker.name = n, timestamp = t\<rparr> #
                    filter (\<lambda>r. RecentTicker.symbol r \<noteq> s) rs))))))"
    by (simp only: upsert_def others_def)
next
  assume "holds st rs \<and> valid_times rs \<and> valid_time t"
  then have "\<exists>st'. addToRecents s n t st = Inr st' \<and> holds st' (upsert s n t rs)"
    using addToRecents_reread by blast
  then show "\<exists>st'. addToRecents s n t st = Inr st' \<and>
         holds st' (take 10 (\<lparr>RecentTicker.symbol = s, RecentTicker.name = n, timestamp = t\<rparr> #
                    filter (\<lambda>r. RecentTicker.symbol r \<noteq> s) rs))"
    by (simp only: upsert_def others_def)
next
  assume v: "valid_time t1 \<and> valid_time t2 \<and> valid_time t3"
  let ?a1 = "\<lparr>RecentTicker.symbol = ''AAPL'', RecentTicker.name = ''Apple Inc.'', timestamp = t1\<rparr>"
  let ?m = "\<lparr>RecentTicker.symbol = ''MSFT'', RecentTicker.name = ''Microsoft'', timestamp = t2\<rparr>"
  let ?a3 = "\<lparr>RecentTicker.symbol = ''AAPL'', RecentTicker.name = ''Apple Inc.'', timestamp = t3\<rparr>"
  have e: "valid_times []" by (simp add: valid_times_def)
  from addToRecents_reread [OF holds_empty e, of t1 "''AAPL''" "''Apple Inc.''"] v
  obtain st1 where 1: "addToRecents ''AAPL'' ''Apple Inc.'' t1 Map.empty = Inr st1" "holds st1 [?a1]"
    by (auto simp: upsert_def others_def)
  have v1: "valid_times [?a1]" using v by (simp add: valid_times_def)
  from addToRecents_reread [OF 1(2) v1, of t2 "''MSFT''" "''Microsoft''"] v
  obtain st2 where 2: "addToRecents ''MSFT'' ''Microsoft'' t2 st1 = Inr st2" "holds st2 [?m, ?a1]"
    by (auto simp: upsert_def others_def)
  have v2: "valid_times [?m, ?a1]" using v by (simp add: valid_times_def)
  from addToRecents_reread [OF 2(2) v2, of t3 "''AAPL''" "''Apple Inc.''"] v
  obtain st3 where 3: "addToRecents ''AAPL'' ''Apple Inc.'' t3 st2 = Inr st3" "holds st3 [?a3, ?m]"
    by (auto simp: upsert_def others_def)
  from 1(1) 2(1) 3 show "\<exists>st'. run [Upsert ''AAPL'' ''Apple Inc.'' t1, Upsert ''MSFT'' ''Microsoft'' t2,
                   Upsert ''AAPL'' ''Apple Inc.'' t3] Map.empty = Inr st' \<and> holds st' [?a3, ?m]"
    by simp
qed

text \<open>
  Witness: on the empty store the first upsert writes the one entry, as the text shown, and
  the three upserts of the scenario leave AAPL before MSFT.
\<close>

theorem addToRecents_upsert_witness:
  \<open>holds Map.empty [] \<and> valid_times [] \<and> valid_time 1700000000000 \<and>
   addToRecents ''AAPL'' ''Apple Inc.'' 1700000000000 Map.empty =
     Inr [RECENTS_KEY \<mapsto> ''[{"symbol":"AAPL","name":"Apple Inc.","timestamp":1700000000000}]''] \<and>
   valid_time 1700000000001 \<and> valid_time 1700000000002 \<and>
   (\<exists>st'. run [Upsert ''AAPL'' ''Apple Inc.'' 1700000000000, Upsert ''MSFT'' ''Microsoft'' 1700000000001,
                Upsert ''AAPL'' ''Apple Inc.'' 1700000000002] Map.empty = Inr st' \<and>
      holds st' [\<lparr>RecentTicker.symbol = ''AAPL'', RecentTicker.name = ''Apple Inc.'', timestamp = 1700000000002\<rparr>,
                 \<lparr>RecentTicker.symbol = ''MSFT'', RecentTicker.name = ''Microsoft'', timestamp = 1700000000001\<rparr>])\<close>
proof -
  have h: "holds Map.empty []" by (rule holds_empty)
  have e: "valid_times []" by (simp add: valid_times_def)
  have v: "valid_time 1700000000000" "valid_time 1700000000001" "valid_time 1700000000002"
    by (simp_all add: valid_time_def)
  have d: "digits_of 1700000000000 = ''1700000000000''"
    by (simp add: digits_of.simps digit_char_def)
  have nt: "number_text (Finite 1700000000000) = ''1700000000000''"
    using number_text_int [OF v(1)] by (simp add: int_text_def d)
  have written: \<open>JSON_stringify (JArr (map recent_json
          (take 10 (\<lparr>RecentTicker.symbol = ''AAPL'', RecentTicker.name = ''Apple Inc.'', timestamp = 1700000000000\<rparr> #
                    filter (\<lambda>r. RecentTicker.symbol r \<noteq> ''AAPL'') [])))) =
      ''[{"symbol":"AAPL","name":"Apple Inc.","timestamp":1700000000000}]''\<close>
    by (simp add: recent_json_def new_entry_def nt quote_def escape_char_def)
  from addToRecents_upsert [of Map.empty "[]" "''AAPL''" "''Apple Inc.''" 1700000000000
      1700000000000 1700000000001 1700000000002] h e v
  show ?thesis unfolding written by blast
qed
text \<open>
  C2. Starting from the empty store, after any sequence of upserts, removals and clearings
  (each upsert at a time the clock can read) the store holds a list whose symbols are
  distinct and which has at most ten entries. After eleven upserts of distinct symbols it
  has ten entries, and the first symbol is not among them.
\<close>

theorem recents_invariant:
  "(list_all valid_operation ops \<longrightarrow>
      (\<exists>st rs. run ops Map.empty = Inr st \<and> holds st rs \<and>
         distinct (map RecentTicker.symbol rs) \<and> length rs \<le> 10)) \<and>
   (length es = 11 \<and> distinct (map fst es) \<and> list_all (\<lambda>e. valid_time (snd (snd e))) es \<longrightarrow>
      (\<exists>st rs. run (map upsert_of es) Map.empty = Inr st \<and> holds st rs \<and>
         length rs = 10 \<and> fst (hd es) \<notin> set (map RecentTicker.symbol rs)))"
proof (intro conjI impI)
  assume "list_all valid_operation ops"
  from run_invariant [OF this holds_empty]
  show "\<exists>st rs. run ops Map.empty = Inr st \<and> holds st rs \<and>
         distinct (map RecentTicker.symbol rs) \<and> length rs \<le> 10"
    by (simp add: valid_times_def) blast
next
  assume a: "length es = 11 \<and> distinct (map fst es) \<and> list_all (\<lambda>e. valid_time (snd (snd e))) es"
  then obtain e es' where es: "es = e # es'" "length es' = 10"
    by (cases es) auto
  have "valid_times []" by (simp add: valid_times_def)
  from run_upserts [OF _ _ holds_empty this, of es] a
  obtain st where st: "run (map upsert_of es) Map.empty = Inr st"
    "holds st (take 10 (rev (map entry es)))" by auto
  have t: "take 10 (rev (map entry es)) = rev (map entry es')"
    using es by simp
  have "fst e \<notin> set (map fst es')" using a es(1) by simp
  moreover have "map RecentTicker.symbol (rev (map entry es')) = rev (map fst es')"
    by (simp add: rev_map entry_def comp_def)
  ultimately have "fst (hd es) \<notin> set (map RecentTicker.symbol (rev (map entry es')))"
    using es(1) by simp
  moreover have "length (rev (map entry es')) = 10" using es(2) by simp
  ultimately show "\<exists>st rs. run (map upsert_of es) Map.empty = Inr st \<and> holds st rs \<and>
         length rs = 10 \<and> fst (hd es) \<notin> set (map RecentTicker.symbol rs)"
    using st unfolding t by blast
qed

text \<open>
  Witness: a sequence with an upsert, a repeated upsert, a removal and a clearing, and the
  eleven upserts of the symbols S0 to S10.
\<close>

theorem recents_invariant_witness:
  "list_all valid_operation
     [Upsert ''AAPL'' ''Apple Inc.'' 1700000000000, Upsert ''MSFT'' ''Microsoft'' 1700000000001,
      Upsert ''AAPL'' ''Apple Inc.'' 1700000000002, Remove ''MSFT'', Clear, Upsert ''IBM'' ''IBM'' 1700000000003] \<and>
   (\<exists>st rs. run [Upsert ''AAPL'' ''Apple Inc.'' 1700000000000, Upsert ''MSFT'' ''Microsoft'' 1700000000001,
      Upsert ''AAPL'' ''Apple Inc.'' 1700000000002, Remove ''MSFT'', Clear, Upsert ''IBM'' ''IBM'' 1700000000003]
        Map.empty = Inr st \<and> holds st rs \<and> distinct (map RecentTicker.symbol rs) \<and> length rs \<le> 10) \<and>
   length [(''S0'', ''N'', 0), (''S1'', ''N'', 1), (''S2'', ''N'', 2), (''S3'', ''N'', 3), (''S4'', ''N'', 4),
           (''S5'', ''N'', 5), (''S6'', ''N'', 6), (''S7'', ''N'', 7), (''S8'', ''N'', 8), (''S9'', ''N'', 9),
           (''S10'', ''N'', 10 :: int)] = 11 \<and>
   (\<exists>st rs. run (map upsert_of
          [(''S0'', ''N'', 0), (''S1'', ''N'', 1), (''S2'', ''N'', 2), (''S3'', ''N'', 3), (''S4'', ''N'', 4),
           (''S5'', ''N'', 5), (''S6'', ''N'', 6), (''S7'', ''N'', 7), (''S8'', ''N'', 8), (''S9'', ''N'', 9),
           (''S10'', ''N'', 10)]) Map.empty = Inr st \<and> holds st rs \<and>
         length rs = 10 \<and> ''S0'' \<notin> set (map RecentTicker.symbol rs))"
proof -
  let ?ops = "[Upsert ''AAPL'' ''Apple Inc.'' 1700000000000, Upsert ''MSFT'' ''Microsoft'' 1700000000001,
      Upsert ''AAPL'' ''Apple Inc.'' 1700000000002, Remove ''MSFT'', Clear, Upsert ''IBM'' ''IBM'' 1700000000003]"
  let ?es = "[(''S0'', ''N'', 0), (''S1'', ''N'', 1), (''S2'', ''N'', 2), (''S3'', ''N'', 3), (''S4'', ''N'', 4),
           (''S5'', ''N'', 5), (''S6'', ''N'', 6), (''S7'', ''N'', 7), (''S8'', ''N'', 8), (''S9'', ''N'', 9),
           (''S10'', ''N'', 10 :: int)]"
  have 1: "list_all valid_operation ?ops" by (simp add: valid_time_def)
  have 2: "length ?es = 11" by simp
  have 3: "distinct (map fst ?es)" by simp
  have 4: "list_all (\<lambda>e. valid_time (snd (snd e))) ?es" by (simp add: valid_time_def)
  have 5: "fst (hd ?es) = ''S0''" by simp
  from recents_invariant [of ?ops ?es] 1 2 3 4
  have "(\<exists>st rs. run ?ops Map.empty = Inr st \<and> holds st rs \<and>
           distinct (map RecentTicker.symbol rs) \<and> length rs \<le> 10)"
    and "(\<exists>st rs. run (map upsert_of ?es) Map.empty = Inr st \<and> holds st rs \<and>
         length rs = 10 \<and> fst (hd ?es) \<notin> set (map RecentTicker.symbol rs))"
    by blast+
  then show ?thesis unfolding 5 using 1 2 by blast
qed

text \<open>
  C9. On a store holding a list, \<open>removeRecent\<close> writes the list without the entries of
  the given symbol, the other entries as they were and in their order, and touches no
  other key. It writes whether or not an entry matched; when none matched, the store
  holds the same list afterwards.
\<close>

theorem removeRecent_filter:
  "(holds st rs \<longrightarrow>
      removeRecent s st =
        Inr (st(RECENTS_KEY \<mapsto> JSON_stringify (JArr (map recent_json
          (filter (\<lambda>r. RecentTicker.symbol r \<noteq> s) rs)))))) \<and>
   (holds st rs \<and> valid_times rs \<longrightarrow>
      (\<exists>st'. removeRecent s st = Inr st' \<and> holds st' (filter (\<lambda>r. RecentTicker.symbol r \<noteq> s) rs) \<and>
         (\<forall>k. k \<noteq> RECENTS_KEY \<longrightarrow> st' k = st k) \<and> st' RECENTS_KEY \<noteq> None)) \<and>
   (holds st rs \<and> valid_times rs \<and> s \<notin> set (map RecentTicker.symbol rs) \<longrightarrow>
      (\<exists>st'. removeRecent s st = Inr st' \<and> holds st' rs \<and> st' RECENTS_KEY \<noteq> None))"
proof (intro conjI impI)
  assume "holds st rs"
  from removeRecent_holds [OF this, of s]
  show "removeRecent s st =
        Inr (st(RECENTS_KEY \<mapsto> JSON_stringify (JArr (map recent_json
          (filter (\<lambda>r. RecentTicker.symbol r \<noteq> s) rs)))))"
    by (simp only: others_def)
next
  assume "holds st rs \<and> valid_times rs"
  then have "\<exists>st'. removeRecent s st = Inr st' \<and> holds st' (others s rs) \<and>
           (\<forall>k. k \<noteq> RECENTS_KEY \<longrightarrow> st' k = st k) \<and> st' RECENTS_KEY \<noteq> None"
    using removeRecent_reread by blast
  then show "\<exists>st'. removeRecent s st = Inr st' \<and> holds st' (filter (\<lambda>r. RecentTicker.symbol r \<noteq> s) rs) \<and>
         (\<forall>k. k \<noteq> RECENTS_KEY \<longrightarrow> st' k = st k) \<and> st' RECENTS_KEY \<noteq> None"
    by (simp only: others_def)
next
  assume a: "holds st rs \<and> valid_times rs \<and> s \<notin> set (map RecentTicker.symbol rs)"
  then have "others s rs = rs" using others_new by blast
  moreover from a have "\<exists>st'. removeRecent s st = Inr st' \<and> holds st' (others s rs) \<and>
           (\<forall>k. k \<noteq> RECENTS_KEY \<longrightarrow> st' k = st k) \<and> st' RECENTS_KEY \<noteq> None"
    using removeRecent_reread by blast
  ultimately show "\<exists>st'. removeRecent s st = Inr st' \<and> holds st' rs \<and> st' RECENTS_KEY \<noteq> None"
    by auto
qed

text \<open>
  Witness: removing MSFT from the list AAPL, MSFT leaves AAPL; removing a symbol from the
  empty store writes the empty list.
\<close>

theorem removeRecent_filter_witness:
  \<open>holds [RECENTS_KEY \<mapsto> ''[{"symbol":"AAPL","name":"Apple Inc.","timestamp":2},{"symbol":"MSFT","name":"Microsoft","timestamp":1}]'']
     [\<lparr>RecentTicker.symbol = ''AAPL'', RecentTicker.name = ''Apple Inc.'', timestamp = 2\<rparr>,
      \<lparr>RecentTicker.symbol = ''MSFT'', RecentTicker.name = ''Microsoft'', timestamp = 1\<rparr>] \<and>
   removeRecent ''MSFT''
     [RECENTS_KEY \<mapsto> ''[{"symbol":"AAPL","name":"Apple Inc.","timestamp":2},{"symbol":"MSFT","name":"Microsoft","timestamp":1}]'']
   = Inr [RECENTS_KEY \<mapsto> ''[{"symbol":"AAPL","name":"Apple Inc.","timestamp":2}]''] \<and>
   holds Map.empty [] \<and> valid_times [] \<and> ''MSFT'' \<notin> set (map RecentTicker.symbol []) \<and>
   removeRecent ''MSFT'' Map.empty = Inr [RECENTS_KEY \<mapsto> ''[]'']\<close>
proof -
  let ?a = "\<lparr>RecentTicker.symbol = ''AAPL'', RecentTicker.name = ''Apple Inc.'', timestamp = 2\<rparr>"
  let ?m = "\<lparr>RecentTicker.symbol = ''MSFT'', RecentTicker.name = ''Microsoft'', timestamp = 1\<rparr>"
  have v: "valid_times [?a, ?m]" "valid_times [?a]" "valid_times []"
    by (simp_all add: valid_times_def valid_time_def)
  have nt: "number_text (Finite 2) = ''2''" "number_text (Finite 1) = ''1''"
    using number_text_int [of 2] number_text_int [of 1]
    by (simp_all add: valid_time_def int_text_def digits_of.simps digit_char_def)
  have two: \<open>JSON_stringify (JArr (map recent_json [?a, ?m])) =
      ''[{"symbol":"AAPL","name":"Apple Inc.","timestamp":2},{"symbol":"MSFT","name":"Microsoft","timestamp":1}]''\<close>
    by (simp add: recent_json_def new_entry_def nt quote_def escape_char_def)
  have one: \<open>JSON_stringify (JArr (map recent_json (filter (\<lambda>r. RecentTicker.symbol r \<noteq> ''MSFT'') [?a, ?m]))) =
      ''[{"symbol":"AAPL","name":"Apple Inc.","timestamp":2}]''\<close>
    by (simp add: recent_json_def new_entry_def nt quote_def escape_char_def)
  have none: "JSON_stringify (JArr (map recent_json (filter (\<lambda>r. RecentTicker.symbol r \<noteq> ''MSFT'') []))) = ''[]''"
    by simp
  have h2: "holds (Map.empty(RECENTS_KEY \<mapsto> JSON_stringify (JArr (map recent_json [?a, ?m])))) [?a, ?m]"
    by (rule holds_written [OF v(1)])
  have h0: "holds Map.empty []" by (rule holds_empty)
  from removeRecent_filter [of "Map.empty(RECENTS_KEY \<mapsto> JSON_stringify (JArr (map recent_json [?a, ?m])))"
      "[?a, ?m]" "''MSFT''"] h2
  have r2: "removeRecent ''MSFT'' (Map.empty(RECENTS_KEY \<mapsto> JSON_stringify (JArr (map recent_json [?a, ?m])))) =
      Inr ((Map.empty(RECENTS_KEY \<mapsto> JSON_stringify (JArr (map recent_json [?a, ?m]))))
        (RECENTS_KEY \<mapsto> JSON_stringify (JArr (map recent_json
          (filter (\<lambda>r. RecentTicker.symbol r \<noteq> ''MSFT'') [?a, ?m])))))"
    by blast
  from removeRecent_filter [of Map.empty "[]" "''MSFT''"] h0
  have r0: "removeRecent ''MSFT'' Map.empty =
      Inr (Map.empty(RECENTS_KEY \<mapsto> JSON_stringify (JArr (map recent_json
          (filter (\<lambda>r. RecentTicker.symbol r \<noteq> ''MSFT'') [])))))"
    by blast
  show ?thesis
    using h2 r2 r0 h0 v(3) unfolding two one none by simp
qed

lemma parse_not_json: "JSON_parse ''not json'' = Inl SyntaxError"
  by (simp add: JSON_parse_def skip_ws_def json_ws_def json_number_def unsigned_json_def is_digit_def
      numeral_eq_Suc)

text \<open>
  C3, as stated: a stored value that cannot be parsed is read as the empty list, and
  neither the upsert nor the listing throws. It fails: the stored text \<open>not json\<close> makes
  \<open>JSON.parse\<close> throw, nothing catches the error, and the read, the upsert and the
  removal are rejected with it.
\<close>

theorem stored_recents_unparseable_counterexample:
  "stored_recents [RECENTS_KEY \<mapsto> ''not json''] = Inl SyntaxError \<and>
   stored_recents [RECENTS_KEY \<mapsto> ''not json''] \<noteq> Inr (JArr []) \<and>
   addToRecents ''AAPL'' ''Apple Inc.'' 1700000000000 [RECENTS_KEY \<mapsto> ''not json''] = Inl SyntaxError"
  by (simp add: stored_recents_def addToRecents_def parse_not_json)

text \<open>
  C3, amended: the read gives the empty list when the key is absent or holds the empty
  string. When the stored text is not valid JSON the read is rejected with the error of
  \<open>JSON.parse\<close>, and so are \<open>addToRecents\<close> and \<open>removeRecent\<close>, before they write.
\<close>

theorem stored_recents_absent_or_error:
  "(st RECENTS_KEY = None \<or> st RECENTS_KEY = Some [] \<longrightarrow> stored_recents st = Inr (JArr [])) \<and>
   (\<forall>stored e. st RECENTS_KEY = Some stored \<and> stored \<noteq> [] \<and> JSON_parse stored = Inl e \<longrightarrow>
      stored_recents st = Inl e \<and> addToRecents s n t st = Inl e \<and> removeRecent s st = Inl e)"
  by (auto simp: stored_recents_def addToRecents_def removeRecent_def)

text \<open>
  Witness: the empty store is read as the empty list; the store holding \<open>not json\<close> is
  not read, and the removal is rejected as the upsert is.
\<close>

theorem stored_recents_absent_or_error_witness:
  "stored_recents Map.empty = Inr (JArr []) \<and>
   [RECENTS_KEY \<mapsto> ''not json''] RECENTS_KEY = Some ''not json'' \<and> ''not json'' \<noteq> [] \<and>
   JSON_parse ''not json'' = Inl SyntaxError \<and>
   stored_recents [RECENTS_KEY \<mapsto> ''not json''] = Inl SyntaxError \<and>
   removeRecent ''AAPL'' [RECENTS_KEY \<mapsto> ''not json''] = Inl SyntaxError"
proof -
  have 1: "Map.empty RECENTS_KEY = (None :: string option)" by simp
  have 2: "[RECENTS_KEY \<mapsto> ''not json''] RECENTS_KEY = Some ''not json''" by simp
  have 3: "''not json'' \<noteq> []" by simp
  from stored_recents_absent_or_error [of Map.empty] 1
  have a: "stored_recents Map.empty = Inr (JArr [])" by blast
  from stored_recents_absent_or_error [of "[RECENTS_KEY \<mapsto> ''not json'']" "''AAPL''" "''Apple Inc.''" 0]
    2 3 parse_not_json
  have "stored_recents [RECENTS_KEY \<mapsto> ''not json''] = Inl SyntaxError \<and>
        removeRecent ''AAPL'' [RECENTS_KEY \<mapsto> ''not json''] = Inl SyntaxError"
    by blast
  with a 2 3 parse_not_json show ?thesis by blast
qed

end
